theory Spec2Isabelle
  imports Complex_Main
begin

section \<open>Black '76 pricing of index options: the model\<close>

text \<open>
  The development embeds \<^verbatim>\<open>src/pricing/black76.py\<close> and the tool body of
  \<^verbatim>\<open>src/server.py\<close>, and reads the engine in two ways. In the first, the floats are
  real numbers and every arithmetic operation is exact: there is no rounding, no NaN, no
  infinity, no overflow and no underflow. In the second (the section on the engine in double
  precision) the floats are binary64 values with infinities and NaN, and every operation
  rounds. In both, an operation that raises in Python (division by zero, logarithm of a
  non-positive number, square root of a negative number, overflow of a power, construction
  of an enum member from an unknown value) is a branch of the model that returns the
  exception as a value.
\<close>

subsection \<open>Exceptions and messages\<close>

text \<open>
  A message is kept as the pieces of the f-string that builds it: literal text, a formatted
  float, or the \<^verbatim>\<open>repr\<close> of a string.
\<close>

datatype piece = Txt string | Flt real | Repr string

type_synonym message = "piece list"

text \<open>
  \<open>OtherException\<close> stands for an instance of any further subclass of Python's
  \<^verbatim>\<open>Exception\<close>, with its class name.
\<close>

datatype exn = ValueError message | ZeroDivisionError message | OtherException string message

fun str_exn :: "exn \<Rightarrow> message" where
  "str_exn (ValueError m) = m"
| "str_exn (ZeroDivisionError m) = m"
| "str_exn (OtherException c m) = m"

definition bind_exn :: "exn + 'a \<Rightarrow> ('a \<Rightarrow> exn + 'b) \<Rightarrow> exn + 'b" where
  "bind_exn m f = (case m of Inl e \<Rightarrow> Inl e | Inr v \<Rightarrow> f v)"

subsection \<open>Strings\<close>

text \<open>
  \<^verbatim>\<open>str.lower\<close> on strings of code points below 256: the ASCII capitals and the
  Latin-1 capitals (all of C0..DE but the multiplication sign D7) move up by 32.
  \<^verbatim>\<open>str.upper\<close> is modelled on ASCII letters only; the tool applies it to a string
  that has already been recognised as an enum value.
\<close>

definition lower_char :: "char \<Rightarrow> char" where
  "lower_char c =
     (let n = (of_char c :: nat)
      in if (65 \<le> n \<and> n \<le> 90) \<or> (192 \<le> n \<and> n \<le> 222 \<and> n \<noteq> 215)
         then char_of (n + 32) else c)"

definition lower :: "string \<Rightarrow> string" where
  "lower s = map lower_char s"

definition upper_char :: "char \<Rightarrow> char" where
  "upper_char c =
     (let n = (of_char c :: nat)
      in if 97 \<le> n \<and> n \<le> 122 then char_of (n - 32) else c)"

definition upper :: "string \<Rightarrow> string" where
  "upper s = map upper_char s"

subsection \<open>Option type and result\<close>

datatype OptionType = CALL | PUT

text \<open>The enum's value lookup \<^verbatim>\<open>OptionType(value)\<close>.\<close>

definition OptionType_of :: "string \<Rightarrow> exn + OptionType" where
  "OptionType_of v =
     (if v = ''call'' then Inr CALL
      else if v = ''put'' then Inr PUT
      else Inl (ValueError [Repr v, Txt '' is not a valid OptionType'']))"

text \<open>
  The engine's parameter is \<^verbatim>\<open>OptionType | str\<close>. \<^verbatim>\<open>OptionType\<close> derives from
  \<^verbatim>\<open>str\<close>, so a member is a string too, with the member's value as its characters.
\<close>

datatype option_arg = AsStr string | AsEnum OptionType

fun str_value :: "option_arg \<Rightarrow> string" where
  "str_value (AsStr s) = s"
| "str_value (AsEnum CALL) = ''call''"
| "str_value (AsEnum PUT) = ''put''"

record SPXOptionResult =
  price :: real
  delta :: real
  gamma :: real
  vega :: real

definition dollar_price :: "SPXOptionResult \<Rightarrow> real" where
  "dollar_price r = price r * 100"

subsection \<open>Rounding and serialisation\<close>

text \<open>
  \<^verbatim>\<open>round(x, ndigits)\<close> on a float rounds to the nearest multiple of
  \<open>10\<^sup>-\<^sup>n\<close>, a tie going to the even multiple.
\<close>

definition round_half_even :: "real \<Rightarrow> int" where
  "round_half_even x =
     (let f = \<lfloor>x\<rfloor>; r = x - of_int f
      in if r < 1 / 2 then f
         else if 1 / 2 < r then f + 1
         else if even f then f else f + 1)"

definition py_round :: "real \<Rightarrow> int \<Rightarrow> real" where
  "py_round x ndigits =
     (if 0 \<le> ndigits
      then of_int (round_half_even (x * 10 ^ nat ndigits)) / 10 ^ nat ndigits
      else of_int (round_half_even (x / 10 ^ nat (- ndigits))) * 10 ^ nat (- ndigits))"

definition to_dict :: "SPXOptionResult \<Rightarrow> int \<Rightarrow> (string \<times> real) list" where
  "to_dict r decimals =
     [(''price'', py_round (price r) decimals),
      (''dollar_price'', py_round (dollar_price r) 2),
      (''delta'', py_round (delta r) decimals),
      (''gamma'', py_round (gamma r) 6),
      (''vega'', py_round (vega r) decimals)]"

text \<open>The call \<^verbatim>\<open>to_dict()\<close>, with the default \<^verbatim>\<open>decimals=4\<close>.\<close>

definition to_dict_default :: "SPXOptionResult \<Rightarrow> (string \<times> real) list" where
  "to_dict_default r = to_dict r 4"

subsection \<open>Library functions of \<^verbatim>\<open>math\<close>\<close>

definition py_div :: "real \<Rightarrow> real \<Rightarrow> exn + real" where
  "py_div a b =
     (if b = 0 then Inl (ZeroDivisionError [Txt ''float division by zero'']) else Inr (a / b))"

definition math_log :: "real \<Rightarrow> exn + real" where
  "math_log x = (if x \<le> 0 then Inl (ValueError [Txt ''math domain error'']) else Inr (ln x))"

definition math_sqrt :: "real \<Rightarrow> exn + real" where
  "math_sqrt x = (if x < 0 then Inl (ValueError [Txt ''math domain error'']) else Inr (sqrt x))"

text \<open>
  The error function \<^verbatim>\<open>math.erf\<close>, by its Maclaurin series
  \<open>erf x = 2/\<surd>\<pi> \<cdot> \<Sum>\<^sub>k (-1)\<^sup>k x\<^sup>2\<^sup>k\<^sup>+\<^sup>1 / (k! (2k+1))\<close>; \<open>erf_coeff n\<close> is the
  coefficient of \<open>x\<^sup>n\<close>.
\<close>

definition erf_coeff :: "nat \<Rightarrow> real" where
  "erf_coeff n =
     (if odd n then (- 1) ^ ((n - 1) div 2) / (fact ((n - 1) div 2) * real n) else 0)"

definition erf_series :: "real \<Rightarrow> real" where
  "erf_series x = (\<Sum>n. erf_coeff n * x ^ n)"

definition erf :: "real \<Rightarrow> real" where
  "erf x = 2 / sqrt pi * erf_series x"

subsection \<open>The pricing engine\<close>

definition norm_cdf :: "real \<Rightarrow> real" where
  "norm_cdf x = 0.5 * (1 + erf (x / sqrt 2))"

definition norm_pdf :: "real \<Rightarrow> real" where
  "norm_pdf x = exp (- 0.5 * x * x) / sqrt (2 * pi)"

definition black76_price ::
  "real \<Rightarrow> real \<Rightarrow> real \<Rightarrow> real \<Rightarrow> real \<Rightarrow> option_arg \<Rightarrow> exn + SPXOptionResult" where
  "black76_price forward_price strike dcf df implied_volatility option_type =
     (if forward_price \<le> 0
      then Inl (ValueError [Txt ''Forward must be positive, got '', Flt forward_price])
      else if strike \<le> 0
      then Inl (ValueError [Txt ''Strike must be positive, got '', Flt strike])
      else if dcf \<le> 0
      then Inl (ValueError [Txt ''DCF must be positive, got '', Flt dcf])
      else if implied_volatility \<le> 0
      then Inl (ValueError [Txt ''Volatility must be positive, got '', Flt implied_volatility])
      else
        bind_exn (OptionType_of (lower (str_value option_type))) (\<lambda>ot.
        bind_exn (math_sqrt dcf) (\<lambda>sqrt_t.
        bind_exn (py_div forward_price strike) (\<lambda>ratio.
        bind_exn (math_log ratio) (\<lambda>log_ratio.
        bind_exn (py_div (log_ratio + (implied_volatility ^ 2 / 2) * dcf)
                         (implied_volatility * sqrt_t)) (\<lambda>d_1.
        let d_2 = d_1 - implied_volatility * sqrt_t;
            pdf_d1 = norm_pdf d_1;
            price_delta =
              (if ot = CALL
               then (df * (forward_price * norm_cdf d_1 - strike * norm_cdf d_2),
                     df * norm_cdf d_1)
               else (df * (strike * norm_cdf (- d_2) - forward_price * norm_cdf (- d_1)),
                     - df * norm_cdf (- d_1)))
        in
        bind_exn (py_div (df * pdf_d1) (forward_price * implied_volatility * sqrt_t)) (\<lambda>gamma_v.
        Inr \<lparr>price = fst price_delta, delta = snd price_delta, gamma = gamma_v,
             vega = df * forward_price * pdf_d1 * sqrt_t / 100\<rparr>)))))))"

subsection \<open>The tool \<^verbatim>\<open>price_option_black76\<close>\<close>

datatype json = JStr string | JNum real | JText message | JObj "(string \<times> json) list"

definition success_response :: "real \<Rightarrow> real \<Rightarrow> string \<Rightarrow> SPXOptionResult \<Rightarrow> json" where
  "success_response forward_price strike option_type result =
     JObj [(''status'', JStr ''success''),
           (''instrument'', JStr ''Option''),
           (''model'', JStr ''Black '76''),
           (''type'', JStr (upper option_type)),
           (''inputs'', JObj [(''forward'', JNum forward_price), (''strike'', JNum strike)]),
           (''pricing'', JObj [(''premium'', JNum (py_round (price result) 2))]),
           (''greeks'', JObj [(''delta'', JNum (py_round (delta result) 4)),
                              (''gamma'', JNum (py_round (gamma result) 6)),
                              (''vega_per_1pct_usd'', JNum (py_round (vega result * 100) 2))])]"

text \<open>
  The two handlers: \<^verbatim>\<open>except ValueError\<close>, then \<^verbatim>\<open>except Exception\<close> (which also
  logs); both return the same shape.
\<close>

fun except_clauses :: "exn \<Rightarrow> json" where
  "except_clauses (ValueError m) =
     JObj [(''status'', JStr ''error''), (''message'', JText (str_exn (ValueError m)))]"
| "except_clauses e =
     JObj [(''status'', JStr ''error''), (''message'', JText (str_exn e))]"

definition price_option_black76 ::
  "real \<Rightarrow> real \<Rightarrow> real \<Rightarrow> real \<Rightarrow> real \<Rightarrow> string \<Rightarrow> json" where
  "price_option_black76 forward_price strike dcf df implied_volatility option_type =
     (case bind_exn (OptionType_of option_type) (\<lambda>ot.
             black76_price forward_price strike dcf df implied_volatility (AsEnum ot)) of
        Inr result \<Rightarrow> success_response forward_price strike option_type result
      | Inl e \<Rightarrow> except_clauses e)"

text \<open>
  The constraints declared on the tool's parameters (\<^verbatim>\<open>Field(gt=0)\<close> on all numbers
  but \<^verbatim>\<open>dcf\<close>, the pattern \<^verbatim>\<open>^(call|put)$\<close> on the option type). The framework
  checks them before the body runs.
\<close>

definition field_constraints ::
  "real \<Rightarrow> real \<Rightarrow> real \<Rightarrow> real \<Rightarrow> real \<Rightarrow> string \<Rightarrow> bool" where
  "field_constraints forward_price strike dcf df implied_volatility option_type \<longleftrightarrow>
     0 < forward_price \<and> 0 < strike \<and> 0 < df \<and> 0 < implied_volatility \<and>
     (option_type = ''call'' \<or> option_type = ''put'')"

text \<open>Reading a key of a JSON object.\<close>

fun json_get :: "string \<Rightarrow> json \<Rightarrow> json option" where
  "json_get k (JObj kvs) = map_of kvs k"
| "json_get k j = None"

section \<open>The engine in double precision\<close>

text \<open>
  A Python float: a finite binary64 value (kept as the real number it denotes), an infinity
  or NaN. The sign of zero is not kept: no operation of the engine tells the two zeros apart.
\<close>

datatype double = Fin real | PInf | NInf | NaN

text \<open>
  Rounding of a real number to binary64, to nearest with ties to even: in the binade of
  exponent \<open>e\<close> the values are the multiples of \<open>2\<^sup>e\<^sup>-\<^sup>5\<^sup>2\<close>, below \<open>2\<^sup>-\<^sup>1\<^sup>0\<^sup>2\<^sup>2\<close> the
  multiples of \<open>2\<^sup>-\<^sup>1\<^sup>0\<^sup>7\<^sup>4\<close>, and a result of magnitude \<open>2\<^sup>1\<^sup>0\<^sup>2\<^sup>4\<close> is an infinity.
\<close>

definition rnd64 :: "real \<Rightarrow> double" where
  "rnd64 x =
     (if x = 0 then Fin 0
      else
        let e = max \<lfloor>log 2 \<bar>x\<bar>\<rfloor> (- 1022);
            q = 2 powr (of_int (e - 52));
            y = of_int (round_half_even (x / q)) * q
        in if 2 powr 1024 \<le> \<bar>y\<bar> then (if 0 < x then PInf else NInf) else Fin y)"

text \<open>
  The arithmetic of IEEE 754 as Python exposes it: \<^verbatim>\<open>/\<close> raises on a zero divisor,
  \<^verbatim>\<open>**\<close> raises \<^verbatim>\<open>OverflowError\<close> when a finite operand overflows (the message is the
  platform's text for \<^verbatim>\<open>ERANGE\<close>), the other operations return infinities and NaN
  silently, and every comparison with NaN is false.
\<close>

fun dneg :: "double \<Rightarrow> double" where
  "dneg (Fin a) = Fin (- a)"
| "dneg PInf = NInf"
| "dneg NInf = PInf"
| "dneg NaN = NaN"

fun dadd :: "double \<Rightarrow> double \<Rightarrow> double" where
  "dadd NaN y = NaN"
| "dadd x NaN = NaN"
| "dadd (Fin a) (Fin b) = rnd64 (a + b)"
| "dadd (Fin a) y = y"
| "dadd x (Fin b) = x"
| "dadd x y = (if x = y then x else NaN)"

definition dsub :: "double \<Rightarrow> double \<Rightarrow> double" where
  "dsub x y = dadd x (dneg y)"

fun dmul :: "double \<Rightarrow> double \<Rightarrow> double" where
  "dmul NaN y = NaN"
| "dmul x NaN = NaN"
| "dmul (Fin a) (Fin b) = rnd64 (a * b)"
| "dmul (Fin a) y = (if a = 0 then NaN else if (0 < a) = (y = PInf) then PInf else NInf)"
| "dmul x (Fin b) = (if b = 0 then NaN else if (0 < b) = (x = PInf) then PInf else NInf)"
| "dmul x y = (if x = y then PInf else NInf)"

fun ddiv :: "double \<Rightarrow> double \<Rightarrow> exn + double" where
  "ddiv x (Fin b) =
     (if b = 0 then Inl (ZeroDivisionError [Txt ''float division by zero''])
      else (case x of
              Fin a \<Rightarrow> Inr (rnd64 (a / b))
            | NaN \<Rightarrow> Inr NaN
            | _ \<Rightarrow> Inr (if (0 < b) = (x = PInf) then PInf else NInf)))"
| "ddiv NaN y = Inr NaN"
| "ddiv x NaN = Inr NaN"
| "ddiv (Fin a) y = Inr (Fin 0)"
| "ddiv x y = Inr NaN"

fun dpow2 :: "double \<Rightarrow> exn + double" where
  "dpow2 NaN = Inr NaN"
| "dpow2 PInf = Inr PInf"
| "dpow2 NInf = Inr PInf"
| "dpow2 (Fin a) =
     (case rnd64 (a * a) of
        Fin y \<Rightarrow> Inr (Fin y)
      | _ \<Rightarrow> Inl (OtherException ''OverflowError''
                  [Txt ''(34, 'Numerical result out of range')'']))"

fun dle :: "double \<Rightarrow> double \<Rightarrow> bool" where
  "dle NaN y = False"
| "dle x NaN = False"
| "dle (Fin a) (Fin b) = (a \<le> b)"
| "dle NInf y = True"
| "dle x PInf = True"
| "dle x y = False"

definition dlt :: "double \<Rightarrow> double \<Rightarrow> bool" where
  "dlt x y \<longleftrightarrow> dle x y \<and> \<not> dle y x"

fun deq :: "double \<Rightarrow> double \<Rightarrow> bool" where
  "deq NaN y = False"
| "deq x NaN = False"
| "deq x y = (x = y)"

text \<open>
  The functions of \<^verbatim>\<open>math\<close> on floats. On finite arguments they are taken as correctly
  rounded; the theorems on this model use them only where the value is exact or does not
  matter (\<open>sqrt 1\<close>, \<open>ln 1\<close>, a positive logarithm added to infinity, NaN arguments).
\<close>

fun dmath_sqrt :: "double \<Rightarrow> exn + double" where
  "dmath_sqrt NaN = Inr NaN"
| "dmath_sqrt PInf = Inr PInf"
| "dmath_sqrt NInf = Inl (ValueError [Txt ''math domain error''])"
| "dmath_sqrt (Fin a) =
     (if a < 0 then Inl (ValueError [Txt ''math domain error'']) else Inr (rnd64 (sqrt a)))"

fun dmath_log :: "double \<Rightarrow> exn + double" where
  "dmath_log NaN = Inr NaN"
| "dmath_log PInf = Inr PInf"
| "dmath_log NInf = Inl (ValueError [Txt ''math domain error''])"
| "dmath_log (Fin a) =
     (if a \<le> 0 then Inl (ValueError [Txt ''math domain error'']) else Inr (rnd64 (ln a)))"

fun dmath_exp :: "double \<Rightarrow> exn + double" where
  "dmath_exp NaN = Inr NaN"
| "dmath_exp PInf = Inr PInf"
| "dmath_exp NInf = Inr (Fin 0)"
| "dmath_exp (Fin a) =
     (case rnd64 (exp a) of
        Fin y \<Rightarrow> Inr (Fin y)
      | _ \<Rightarrow> Inl (OtherException ''OverflowError'' [Txt ''math range error'']))"

fun dmath_erf :: "double \<Rightarrow> double" where
  "dmath_erf NaN = NaN"
| "dmath_erf PInf = Fin 1"
| "dmath_erf NInf = Fin (- 1)"
| "dmath_erf (Fin a) = rnd64 (erf a)"

definition math_pi :: double where
  "math_pi = rnd64 pi"

text \<open>A float inside an f-string.\<close>

fun format_double :: "double \<Rightarrow> piece" where
  "format_double (Fin a) = Flt a"
| "format_double PInf = Txt ''inf''"
| "format_double NInf = Txt ''-inf''"
| "format_double NaN = Txt ''nan''"

record SPXOptionResult_double =
  dprice :: double
  ddelta :: double
  dgamma :: double
  dvega :: double

text \<open>The same source lines as above, now on floats.\<close>

definition norm_cdf_double :: "double \<Rightarrow> exn + double" where
  "norm_cdf_double x =
     bind_exn (dmath_sqrt (Fin 2)) (\<lambda>s.
     bind_exn (ddiv x s) (\<lambda>q.
     Inr (dmul (Fin 0.5) (dadd (Fin 1) (dmath_erf q)))))"

definition norm_pdf_double :: "double \<Rightarrow> exn + double" where
  "norm_pdf_double x =
     bind_exn (dmath_exp (dmul (dmul (Fin (- 0.5)) x) x)) (\<lambda>e.
     bind_exn (dmath_sqrt (dmul (Fin 2) math_pi)) (\<lambda>s.
     ddiv e s))"

definition black76_price_double ::
  "double \<Rightarrow> double \<Rightarrow> double \<Rightarrow> double \<Rightarrow> double \<Rightarrow> option_arg
     \<Rightarrow> exn + SPXOptionResult_double" where
  "black76_price_double forward_price strike dcf df implied_volatility option_type =
     (if dle forward_price (Fin 0)
      then Inl (ValueError [Txt ''Forward must be positive, got '', format_double forward_price])
      else if dle strike (Fin 0)
      then Inl (ValueError [Txt ''Strike must be positive, got '', format_double strike])
      else if dle dcf (Fin 0)
      then Inl (ValueError [Txt ''DCF must be positive, got '', format_double dcf])
      else if dle implied_volatility (Fin 0)
      then Inl (ValueError [Txt ''Volatility must be positive, got '',
                            format_double implied_volatility])
      else
        bind_exn (OptionType_of (lower (str_value option_type))) (\<lambda>ot.
        bind_exn (dmath_sqrt dcf) (\<lambda>sqrt_t.
        bind_exn (ddiv forward_price strike) (\<lambda>ratio.
        bind_exn (dmath_log ratio) (\<lambda>log_ratio.
        bind_exn (dpow2 implied_volatility) (\<lambda>vol_sq.
        bind_exn (ddiv vol_sq (Fin 2)) (\<lambda>half_vol_sq.
        bind_exn (ddiv (dadd log_ratio (dmul half_vol_sq dcf))
                       (dmul implied_volatility sqrt_t)) (\<lambda>d_1.
        let d_2 = dsub d_1 (dmul implied_volatility sqrt_t) in
        bind_exn (norm_pdf_double d_1) (\<lambda>pdf_d1.
        bind_exn
          (if ot = CALL
           then bind_exn (norm_cdf_double d_1) (\<lambda>n1.
                bind_exn (norm_cdf_double d_2) (\<lambda>n2.
                bind_exn (norm_cdf_double d_1) (\<lambda>n3.
                Inr (dmul df (dsub (dmul forward_price n1) (dmul strike n2)),
                     dmul df n3))))
           else bind_exn (norm_cdf_double (dneg d_2)) (\<lambda>n1.
                bind_exn (norm_cdf_double (dneg d_1)) (\<lambda>n2.
                bind_exn (norm_cdf_double (dneg d_1)) (\<lambda>n3.
                Inr (dmul df (dsub (dmul strike n1) (dmul forward_price n2)),
                     dmul (dneg df) n3)))))
          (\<lambda>price_delta.
        bind_exn (ddiv (dmul df pdf_d1)
                       (dmul (dmul forward_price implied_volatility) sqrt_t)) (\<lambda>gamma_v.
        bind_exn (ddiv (dmul (dmul (dmul df forward_price) pdf_d1) sqrt_t) (Fin 100)) (\<lambda>vega_v.
        Inr \<lparr>dprice = fst price_delta, ddelta = snd price_delta, dgamma = gamma_v,
             dvega = vega_v\<rparr>))))))))))))"

section \<open>The closed form, as the specification words it\<close>

definition Phi :: "real \<Rightarrow> real" where
  "Phi x = 0.5 * (1 + erf (x / sqrt 2))"

definition phi :: "real \<Rightarrow> real" where
  "phi x = exp (- (x\<^sup>2) / 2) / sqrt (2 * pi)"

definition black76_closed_form ::
  "OptionType \<Rightarrow> real \<Rightarrow> real \<Rightarrow> real \<Rightarrow> real \<Rightarrow> real \<Rightarrow> SPXOptionResult" where
  "black76_closed_form ot F K T D \<sigma> =
     (let sqrtT = sqrt T;
          d1 = (ln (F / K) + (\<sigma>\<^sup>2 / 2) * T) / (\<sigma> * sqrtT);
          d2 = d1 - \<sigma> * sqrtT
      in \<lparr>price = (case ot of CALL \<Rightarrow> D * (F * Phi d1 - K * Phi d2)
                          | PUT \<Rightarrow> D * (K * Phi (- d2) - F * Phi (- d1))),
          delta = (case ot of CALL \<Rightarrow> D * Phi d1 | PUT \<Rightarrow> - D * Phi (- d1)),
          gamma = D * phi d1 / (F * \<sigma> * sqrtT),
          vega = D * F * phi d1 * sqrtT / 100\<rparr>)"

text \<open>
  A value \<open>y\<close> is \<open>x\<close> rounded to \<open>n\<close> decimal places: a whole number of units
  \<open>10\<^sup>-\<^sup>n\<close>, at most half a unit away from \<open>x\<close>.
\<close>

definition rounded_to :: "nat \<Rightarrow> real \<Rightarrow> real \<Rightarrow> bool" where
  "rounded_to n x y \<longleftrightarrow> y * 10 ^ n \<in> \<int> \<and> \<bar>y - x\<bar> \<le> 1 / (2 * 10 ^ n)"

section \<open>Auxiliary functions of the analysis\<close>

text \<open>
  The intermediate quantities \<^verbatim>\<open>d_1\<close> and \<^verbatim>\<open>d_2\<close> of the engine as functions of its
  inputs, and the undiscounted call and put values.
\<close>

definition d_1 :: "real \<Rightarrow> real \<Rightarrow> real \<Rightarrow> real \<Rightarrow> real" where
  "d_1 F K T v = (ln (F / K) + (v\<^sup>2 / 2) * T) / (v * sqrt T)"

definition d_2 :: "real \<Rightarrow> real \<Rightarrow> real \<Rightarrow> real \<Rightarrow> real" where
  "d_2 F K T v = d_1 F K T v - v * sqrt T"

definition call_value :: "real \<Rightarrow> real \<Rightarrow> real \<Rightarrow> real \<Rightarrow> real" where
  "call_value F K T v = F * norm_cdf (d_1 F K T v) - K * norm_cdf (d_2 F K T v)"

definition put_value :: "real \<Rightarrow> real \<Rightarrow> real \<Rightarrow> real \<Rightarrow> real" where
  "put_value F K T v = K * norm_cdf (- d_2 F K T v) - F * norm_cdf (- d_1 F K T v)"

text \<open>
  \<open>cos_int k t\<close> is the integral of \<open>cos\<^sup>k\<close> from \<open>0\<close> to \<open>t\<close>, by the reduction
  formula; \<open>wallis k\<close> is its value at \<open>\<pi>/2\<close>.
\<close>

fun cos_int :: "nat \<Rightarrow> real \<Rightarrow> real" where
  "cos_int 0 t = t"
| "cos_int (Suc 0) t = sin t"
| "cos_int (Suc (Suc k)) t =
     cos t ^ Suc k * sin t / real (k + 2) + real (k + 1) / real (k + 2) * cos_int k t"

definition wallis :: "nat \<Rightarrow> real" where
  "wallis k = cos_int k (pi / 2)"

section \<open>The error function\<close>

subsection \<open>The series and its derivative\<close>

lemma erf_half_summable:
  "summable (\<lambda>k. (- 1) ^ k * x ^ (2 * k + 1) / (fact k * real (2 * k + 1)))"
proof (rule summable_comparison_test)
  show "summable (\<lambda>k. \<bar>x\<bar> * ((x\<^sup>2) ^ k /\<^sub>R fact k))"
    by (intro summable_mult summable_exp_generic)
  show "\<exists>N. \<forall>k\<ge>N. norm ((- 1) ^ k * x ^ (2 * k + 1) / (fact k * real (2 * k + 1)))
                 \<le> \<bar>x\<bar> * ((x\<^sup>2) ^ k /\<^sub>R fact k)"
  proof (intro exI[of _ 0] allI impI)
    fix k :: nat
    have "norm ((- 1) ^ k * x ^ (2 * k + 1) / (fact k * real (2 * k + 1)))
          = \<bar>x\<bar> * (x\<^sup>2) ^ k / (fact k * real (2 * k + 1))"
      by (simp add: abs_mult power_abs power_mult power_even_abs)
    also have "\<dots> \<le> \<bar>x\<bar> * (x\<^sup>2) ^ k / (fact k * 1)"
      by (intro divide_left_mono mult_left_mono mult_pos_pos mult_nonneg_nonneg) simp_all
    also have "\<dots> = \<bar>x\<bar> * ((x\<^sup>2) ^ k /\<^sub>R fact k)"
      by (simp add: divide_inverse)
    finally show "norm ((- 1) ^ k * x ^ (2 * k + 1) / (fact k * real (2 * k + 1)))
                 \<le> \<bar>x\<bar> * ((x\<^sup>2) ^ k /\<^sub>R fact k)" .
  qed
qed

lemma erf_coeff_term:
  "erf_coeff n * x ^ n =
     (if even n then 0
      else (\<lambda>k. (- 1) ^ k * x ^ (2 * k + 1) / (fact k * real (2 * k + 1))) ((n - 1) div 2))"
  by (auto simp: erf_coeff_def elim!: oddE)

lemma erf_coeff_summable: "summable (\<lambda>n. erf_coeff n * x ^ n)"
proof -
  have "summable (\<lambda>n. if even n then 0
      else (\<lambda>k. (- 1) ^ k * x ^ (2 * k + 1) / (fact k * real (2 * k + 1))) ((n - 1) div 2))"
    using sums_if'[OF summable_sums[OF erf_half_summable[of x]]] by (rule sums_summable)
  then show ?thesis by (simp only: erf_coeff_term)
qed

lemma cancel_aux: "(a::real) \<noteq> 0 \<Longrightarrow> a * (b / (c * a)) = b / c"
  by simp

lemma erf_coeff_Suc_double: "erf_coeff (Suc (2 * k)) = (- 1) ^ k / (fact k * real (Suc (2 * k)))"
  by (simp add: erf_coeff_def)

lemma diffs_erf_coeff:
  "diffs erf_coeff n * x ^ n =
     (if even n then (- (x\<^sup>2)) ^ (n div 2) /\<^sub>R fact (n div 2) else 0)"
proof (cases "even n")
  case True
  then obtain k where k: "n = 2 * k" by (elim evenE)
  have r: "real (Suc (2 * k)) \<noteq> 0" by simp
  have "diffs erf_coeff n = real (Suc (2 * k)) * ((- 1) ^ k / (fact k * real (Suc (2 * k))))"
    unfolding k diffs_def erf_coeff_Suc_double ..
  also have "\<dots> = (- 1) ^ k / fact k"
    using r cancel_aux[of "real (Suc (2 * k))" "(- 1) ^ k" "fact k"] by blast
  finally have d: "diffs erf_coeff n = (- 1) ^ k / fact k" .
  have p: "(- (x\<^sup>2)) ^ k = (- 1) ^ k * x ^ n"
    unfolding k by (simp only: power_mult power_minus[of "x\<^sup>2" k])
  have h: "n div 2 = k" unfolding k by simp
  have "diffs erf_coeff n * x ^ n = (- (x\<^sup>2)) ^ k /\<^sub>R fact k"
    by (simp add: d p divide_inverse mult_ac)
  then show ?thesis
    using True by (simp only: h if_True)
next
  case False
  then show ?thesis by (simp add: diffs_def erf_coeff_def)
qed

lemma diffs_erf_sums: "(\<lambda>n. diffs erf_coeff n * x ^ n) sums exp (- (x\<^sup>2))"
proof -
  have "(\<lambda>k. (- (x\<^sup>2)) ^ k /\<^sub>R fact k) sums exp (- (x\<^sup>2))"
    by (rule exp_converges)
  from sums_if[OF sums_zero this]
  show ?thesis by (simp add: diffs_erf_coeff[abs_def])
qed

lemma erf_series_deriv: "DERIV erf_series x :> exp (- (x\<^sup>2))"
proof -
  have "DERIV (\<lambda>x. \<Sum>n. erf_coeff n * x ^ n) x :> (\<Sum>n. diffs erf_coeff n * x ^ n)"
    by (rule termdiffs_strong_converges_everywhere) (rule erf_coeff_summable)
  moreover have "(\<Sum>n. diffs erf_coeff n * x ^ n) = exp (- (x\<^sup>2))"
    using diffs_erf_sums by (rule sums_unique[symmetric])
  ultimately show ?thesis by (simp add: erf_series_def[abs_def])
qed

lemma erf_series_0: "erf_series 0 = 0"
proof -
  have "(\<lambda>n. erf_coeff n * 0 ^ n) = (\<lambda>n. 0)"
    by (rule ext) (auto simp: erf_coeff_def power_0_left)
  then show ?thesis by (simp add: erf_series_def)
qed

lemma erf_series_minus: "erf_series (- x) = - erf_series x"
proof -
  have "(\<lambda>n. erf_coeff n * (- x) ^ n) = (\<lambda>n. - (erf_coeff n * x ^ n))"
    by (rule ext) (auto simp: erf_coeff_def)
  then show ?thesis
    by (simp add: erf_series_def suminf_minus[OF erf_coeff_summable])
qed

lemma erf_series_strict_mono: "x < y \<Longrightarrow> erf_series x < erf_series y"
  by (rule DERIV_pos_imp_increasing[of x y erf_series]) (auto intro: erf_series_deriv)

subsection \<open>Integrals of powers of the cosine\<close>

lemma cos_int_alg:
  fixes s c a p :: real
  assumes "s * s = 1 - c * c" and "a + 1 \<noteq> 0"
  shows "(a * p * (- s) * s + p * c * c) / (a + 1) + a / (a + 1) * p = p * c * c"
proof -
  have poly: "a * p * (- s) * s + p * c * c + a * p = (a + 1) * (p * c * c)"
    using assms(1) by algebra
  have "(a * p * (- s) * s + p * c * c) / (a + 1) + a / (a + 1) * p
        = (a * p * (- s) * s + p * c * c + a * p) / (a + 1)"
    by (simp only: add_divide_distrib times_divide_eq_left)
  also have "\<dots> = (a + 1) * (p * c * c) / (a + 1)" by (simp only: poly)
  also have "\<dots> = p * c * c" using assms(2) by simp
  finally show ?thesis .
qed

lemma cos_int_deriv: "DERIV (cos_int k) t :> cos t ^ k"
proof (induction k t rule: cos_int.induct)
  case (1 t)
  show ?case by (simp add: cos_int.simps[abs_def])
next
  case (2 t)
  have "DERIV sin t :> cos t" by (rule DERIV_sin)
  then show ?case by (simp add: cos_int.simps[abs_def])
next
  case (3 k t)
  have ih: "DERIV (cos_int k) t :> cos t ^ k" by (rule 3)
  have "DERIV (\<lambda>t. cos t ^ Suc k * sin t / real (k + 2) + real (k + 1) / real (k + 2) * cos_int k t) t
        :> (real (Suc k) * cos t ^ k * (- sin t) * sin t + cos t ^ Suc k * cos t) / real (k + 2)
            + real (k + 1) / real (k + 2) * cos t ^ k"
    by (rule derivative_eq_intros ih refl | simp add: mult_ac)+
  moreover have "(real (Suc k) * cos t ^ k * (- sin t) * sin t + cos t ^ Suc k * cos t) / real (k + 2)
            + real (k + 1) / real (k + 2) * cos t ^ k = cos t ^ Suc (Suc k)"
  proof -
    have s: "sin t * sin t = 1 - cos t * cos t"
      using sin_cos_squared_add3[of t] by linarith
    have e1: "real (k + 2) = real (Suc k) + 1" and e2: "real (k + 1) = real (Suc k)"
      by simp_all
    have nz: "real (Suc k) + 1 \<noteq> 0"
      by (simp add: add_nonneg_eq_0_iff del: of_nat_Suc)
    show ?thesis
      unfolding e1 e2 power_Suc2 by (rule cos_int_alg[OF s nz])
  qed
  ultimately show ?case by (simp only: cos_int.simps[abs_def])
qed

lemma deriv_compare:
  fixes f g :: "real \<Rightarrow> real"
  assumes ab: "a \<le> b"
    and f: "\<And>x. a \<le> x \<Longrightarrow> x \<le> b \<Longrightarrow> DERIV f x :> f' x"
    and g: "\<And>x. a \<le> x \<Longrightarrow> x \<le> b \<Longrightarrow> DERIV g x :> g' x"
    and le: "\<And>x. a \<le> x \<Longrightarrow> x \<le> b \<Longrightarrow> f' x \<le> g' x"
  shows "f b - f a \<le> g b - g a"
proof -
  have "(\<lambda>x. g x - f x) a \<le> (\<lambda>x. g x - f x) b"
  proof (rule DERIV_nonneg_imp_nondecreasing[OF ab])
    fix x assume x: "a \<le> x" "x \<le> b"
    have "DERIV (\<lambda>x. g x - f x) x :> g' x - f' x"
      by (rule DERIV_diff[OF g[OF x] f[OF x]])
    moreover have "0 \<le> g' x - f' x" using le[OF x] by simp
    ultimately show "\<exists>y. DERIV (\<lambda>x. g x - f x) x :> y \<and> 0 \<le> y" by blast
  qed
  then show ?thesis by simp
qed

lemma cos_int_0: "cos_int k 0 = 0"
  by (induction k "0::real" rule: cos_int.induct) simp_all

lemma wallis_0: "wallis 0 = pi / 2"
  by (simp add: wallis_def)

lemma wallis_1: "wallis (Suc 0) = 1"
  by (simp add: wallis_def)

lemma wallis_rec: "wallis (Suc (Suc k)) = real (k + 1) / real (k + 2) * wallis k"
  by (simp add: wallis_def)

lemma wallis_pos_pair: "0 < wallis k \<and> 0 < wallis (Suc k)"
proof (induction k)
  case 0
  show ?case by (simp add: wallis_0 wallis_1)
next
  case (Suc k)
  then have "0 < real (k + 1) / real (k + 2) * wallis k" by simp
  with Suc show ?case unfolding wallis_rec by blast
qed

lemma wallis_pos: "0 < wallis k"
  using wallis_pos_pair by blast

lemma cos_int_mono:
  assumes "0 \<le> s" "s \<le> t" "t \<le> pi / 2"
  shows "cos_int k s \<le> cos_int k t"
proof (rule DERIV_nonneg_imp_nondecreasing[OF assms(2)])
  fix x assume x: "s \<le> x" "x \<le> t"
  have "0 \<le> cos x" using x assms by (intro cos_ge_zero) linarith+
  then have "0 \<le> cos x ^ k" by simp
  with cos_int_deriv[of k x] show "\<exists>y. DERIV (cos_int k) x :> y \<and> 0 \<le> y" by blast
qed

lemma wallis_antimono: "wallis (Suc k) \<le> wallis k"
proof -
  have "cos_int (Suc k) (pi / 2) - cos_int (Suc k) 0 \<le> cos_int k (pi / 2) - cos_int k 0"
  proof (rule deriv_compare[where f' = "\<lambda>x. cos x ^ Suc k" and g' = "\<lambda>x. cos x ^ k"])
    show "0 \<le> pi / 2" by simp
  next
    fix x :: real assume x: "0 \<le> x" "x \<le> pi / 2"
    show "DERIV (cos_int (Suc k)) x :> cos x ^ Suc k" by (rule cos_int_deriv)
    show "DERIV (cos_int k) x :> cos x ^ k" by (rule cos_int_deriv)
    have c0: "0 \<le> cos x" using x by (intro cos_ge_zero) linarith+
    have "cos x * cos x ^ k \<le> 1 * cos x ^ k"
      by (rule mult_right_mono) (use c0 in simp_all)
    then show "cos x ^ Suc k \<le> cos x ^ k" by simp
  qed
  then show ?thesis by (simp add: cos_int_0 wallis_def)
qed

lemma wallis_prod: "real (k + 1) * wallis k * wallis (Suc k) = pi / 2"
proof (induction k)
  case 0
  show ?case by (simp add: wallis_0 wallis_1)
next
  case (Suc k)
  have "real (Suc k + 1) * wallis (Suc k) * wallis (Suc (Suc k))
        = real (k + 2) * wallis (Suc k) * (real (k + 1) / real (k + 2) * wallis k)"
    by (simp only: wallis_rec) simp
  also have "\<dots> = real (k + 1) * wallis k * wallis (Suc k)"
    by (simp add: field_simps del: of_nat_Suc of_nat_add)
  finally show ?case by (simp only: Suc)
qed

lemma wallis_sq_lower: "pi / (2 * real (k + 1)) \<le> (wallis k)\<^sup>2"
proof -
  have "wallis k * wallis (Suc k) \<le> wallis k * wallis k"
    by (rule mult_left_mono[OF wallis_antimono]) (rule less_imp_le[OF wallis_pos])
  moreover have "wallis k * wallis (Suc k) = pi / (2 * real (k + 1))"
    using wallis_prod[of k] by (simp add: field_simps del: of_nat_Suc of_nat_add)
  ultimately show ?thesis by (simp add: power2_eq_square)
qed

lemma wallis_sq_upper: "(wallis (Suc k))\<^sup>2 \<le> pi / (2 * real (k + 1))"
proof -
  have "wallis (Suc k) * wallis (Suc k) \<le> wallis k * wallis (Suc k)"
    by (rule mult_right_mono[OF wallis_antimono]) (rule less_imp_le[OF wallis_pos])
  moreover have "wallis k * wallis (Suc k) = pi / (2 * real (k + 1))"
    using wallis_prod[of k] by (simp add: field_simps del: of_nat_Suc of_nat_add)
  ultimately show ?thesis by (simp add: power2_eq_square)
qed

subsection \<open>The Gaussian integral between two Wallis integrals\<close>

lemma exp_neg_le_inverse: "0 \<le> u \<Longrightarrow> exp (- u) \<le> 1 / (1 + (u::real))"
proof -
  assume u: "0 \<le> u"
  have "1 + u \<le> exp u" by (rule exp_ge_add_one_self)
  then have "1 / exp u \<le> 1 / (1 + u)"
    using u by (intro divide_left_mono) (simp_all add: add_pos_nonneg)
  then show ?thesis by (simp add: exp_minus inverse_eq_divide)
qed

lemma one_minus_le_exp_neg: "1 - u \<le> exp (- (u::real))"
  using exp_ge_add_one_self[of "- u"] by simp

lemma erf_series_scaled_deriv:
  assumes "DERIV h t :> d"
  shows "DERIV (\<lambda>t. erf_series (r * h t)) t :> exp (- ((r * h t)\<^sup>2)) * (r * d)"
  by (rule DERIV_chain2[OF erf_series_deriv DERIV_cmult[OF assms]])

lemma gauss_upper_wallis:
  assumes x: "0 \<le> x"
  shows "erf_series x \<le> sqrt (real (Suc m)) * wallis (2 * m)"
proof -
  define r where "r = sqrt (real (Suc m))"
  define t0 where "t0 = arctan (x / r)"
  have r: "0 < r" by (simp add: r_def)
  have r2: "r\<^sup>2 = real (Suc m)" by (simp add: r_def)
  have t0: "0 \<le> t0" "t0 < pi / 2"
    using x r arctan_ubound[of "x / r"] by (simp_all add: t0_def zero_le_arctan_iff)
  have "erf_series (r * tan t0) - erf_series (r * tan 0)
        \<le> r * cos_int (2 * m) t0 - r * cos_int (2 * m) 0"
  proof (rule deriv_compare[where
        f' = "\<lambda>t. exp (- ((r * tan t)\<^sup>2)) * (r * inverse ((cos t)\<^sup>2))"
        and g' = "\<lambda>t. r * cos t ^ (2 * m)"])
    show "0 \<le> t0" by (rule t0)
  next
    fix t :: real assume t: "0 \<le> t" "t \<le> t0"
    have c: "0 < cos t" using t t0 by (intro cos_gt_zero_pi) linarith+
    then have cnz: "cos t \<noteq> 0" by simp
    show "DERIV (\<lambda>t. erf_series (r * tan t)) t
            :> exp (- ((r * tan t)\<^sup>2)) * (r * inverse ((cos t)\<^sup>2))"
      by (rule erf_series_scaled_deriv[OF DERIV_tan[OF cnz]])
    show "DERIV (\<lambda>t. r * cos_int (2 * m) t) t :> r * cos t ^ (2 * m)"
      by (rule DERIV_cmult[OF cos_int_deriv])
    have u: "1 + (tan t)\<^sup>2 = 1 / (cos t)\<^sup>2"
      using cnz by (simp add: tan_def field_simps power2_eq_square)
    have "exp (- ((tan t)\<^sup>2)) \<le> 1 / (1 + (tan t)\<^sup>2)"
      by (rule exp_neg_le_inverse) simp
    then have e1: "exp (- ((tan t)\<^sup>2)) \<le> (cos t)\<^sup>2" by (simp add: u)
    have "exp (- ((r * tan t)\<^sup>2)) = exp (- ((tan t)\<^sup>2)) ^ Suc m"
      by (simp only: power_mult_distrib r2 exp_of_nat_mult[symmetric]) (simp add: algebra_simps)
    also have "\<dots> \<le> ((cos t)\<^sup>2) ^ Suc m"
      by (rule power_mono[OF e1]) simp
    also have "\<dots> = cos t ^ (2 * m) * (cos t)\<^sup>2"
      by (simp add: power_mult)
    finally have "exp (- ((r * tan t)\<^sup>2)) \<le> cos t ^ (2 * m) * (cos t)\<^sup>2" .
    then have "exp (- ((r * tan t)\<^sup>2)) * inverse ((cos t)\<^sup>2) \<le> cos t ^ (2 * m)"
      using c by (simp add: field_simps)
    then have "r * (exp (- ((r * tan t)\<^sup>2)) * inverse ((cos t)\<^sup>2)) \<le> r * cos t ^ (2 * m)"
      using r by (intro mult_left_mono) simp_all
    then show "exp (- ((r * tan t)\<^sup>2)) * (r * inverse ((cos t)\<^sup>2)) \<le> r * cos t ^ (2 * m)"
      by (simp only: mult_ac)
  qed
  moreover have "r * tan t0 = x" using r by (simp add: t0_def tan_arctan)
  ultimately have "erf_series x \<le> r * cos_int (2 * m) t0"
    by (simp add: erf_series_0 cos_int_0)
  also have "\<dots> \<le> r * cos_int (2 * m) (pi / 2)"
    using r t0 by (intro mult_left_mono cos_int_mono) simp_all
  finally show ?thesis by (simp add: r_def wallis_def)
qed

lemma gauss_lower_wallis:
  "sqrt (real n) * wallis (2 * n + 1) \<le> erf_series (sqrt (real n))"
proof -
  define r where "r = sqrt (real n)"
  have r: "0 \<le> r" by (simp add: r_def)
  have r2: "r\<^sup>2 = real n" by (simp add: r_def)
  have "r * cos_int (2 * n + 1) (pi / 2) - r * cos_int (2 * n + 1) 0
        \<le> erf_series (r * sin (pi / 2)) - erf_series (r * sin 0)"
  proof (rule deriv_compare[where
        g' = "\<lambda>t. exp (- ((r * sin t)\<^sup>2)) * (r * cos t)"
        and f' = "\<lambda>t. r * cos t ^ (2 * n + 1)"])
    show "0 \<le> pi / 2" by simp
  next
    fix t :: real assume t: "0 \<le> t" "t \<le> pi / 2"
    have c: "0 \<le> cos t" using t by (intro cos_ge_zero) linarith+
    show "DERIV (\<lambda>t. erf_series (r * sin t)) t :> exp (- ((r * sin t)\<^sup>2)) * (r * cos t)"
      by (rule erf_series_scaled_deriv[OF DERIV_sin])
    show "DERIV (\<lambda>t. r * cos_int (2 * n + 1) t) t :> r * cos t ^ (2 * n + 1)"
      by (rule DERIV_cmult[OF cos_int_deriv])
    have u: "(cos t)\<^sup>2 = 1 - (sin t)\<^sup>2"
      using sin_cos_squared_add[of t] by linarith
    have e1: "(cos t)\<^sup>2 \<le> exp (- ((sin t)\<^sup>2))"
      unfolding u by (rule one_minus_le_exp_neg)
    have "cos t ^ (2 * n) = ((cos t)\<^sup>2) ^ n" by (simp add: power_mult)
    also have "\<dots> \<le> exp (- ((sin t)\<^sup>2)) ^ n"
      by (rule power_mono[OF e1]) simp
    also have "\<dots> = exp (- ((r * sin t)\<^sup>2))"
      by (simp only: power_mult_distrib r2 exp_of_nat_mult[symmetric]) (simp add: algebra_simps)
    finally have "cos t ^ (2 * n) \<le> exp (- ((r * sin t)\<^sup>2))" .
    then have "cos t ^ (2 * n) * (r * cos t) \<le> exp (- ((r * sin t)\<^sup>2)) * (r * cos t)"
      using r c by (intro mult_right_mono) simp_all
    then show "r * cos t ^ (2 * n + 1) \<le> exp (- ((r * sin t)\<^sup>2)) * (r * cos t)"
      by (simp add: mult_ac)
  qed
  then show ?thesis by (simp add: erf_series_0 cos_int_0 r_def wallis_def)
qed

subsection \<open>Bounds and limit of the error function; the normal distribution\<close>

lemma erf_series_nonneg: "0 \<le> x \<Longrightarrow> 0 \<le> erf_series x"
  using erf_series_strict_mono[of 0 x] erf_series_0 by (cases "x = 0") auto

lemma erf_series_sq_step:
  assumes x: "0 \<le> x"
  shows "(erf_series x)\<^sup>2 \<le> pi / 4 + pi / (4 * real (Suc j))"
proof -
  have w: "(wallis (2 * Suc j))\<^sup>2 \<le> pi / (2 * real (2 * j + 2))"
    using wallis_sq_upper[of "2 * j + 1"] by simp
  have "erf_series x \<le> sqrt (real (Suc (Suc j))) * wallis (2 * Suc j)"
    by (rule gauss_upper_wallis[OF x])
  then have "(erf_series x)\<^sup>2 \<le> (sqrt (real (Suc (Suc j))) * wallis (2 * Suc j))\<^sup>2"
    by (rule power_mono) (rule erf_series_nonneg[OF x])
  also have "\<dots> = real (Suc (Suc j)) * (wallis (2 * Suc j))\<^sup>2"
    by (simp add: power_mult_distrib)
  also have "\<dots> \<le> real (Suc (Suc j)) * (pi / (2 * real (2 * j + 2)))"
    by (rule mult_left_mono[OF w]) simp
  also have "\<dots> = pi / 4 + pi / (4 * real (Suc j))"
    by (simp add: field_simps)
  finally show ?thesis .
qed

lemma erf_series_sq_le:
  assumes x: "0 \<le> x"
  shows "(erf_series x)\<^sup>2 \<le> pi / 4"
proof (rule ccontr)
  assume "\<not> ?thesis"
  then have d: "0 < (erf_series x)\<^sup>2 - pi / 4" by simp
  define d where "d = (erf_series x)\<^sup>2 - pi / 4"
  have dpos: "0 < d" using d by (simp add: d_def)
  obtain j :: nat where j: "pi / (4 * d) < real j"
    using reals_Archimedean2 by blast
  have "pi / (4 * d) < real (Suc j)" using j by simp
  then have "pi < real (Suc j) * (4 * d)"
    using dpos by (simp add: pos_divide_less_eq)
  then have "pi / (4 * real (Suc j)) < d"
    by (simp add: pos_divide_less_eq mult_ac del: of_nat_Suc)
  moreover have "d \<le> pi / (4 * real (Suc j))"
    using erf_series_sq_step[OF x, of j] by (simp add: d_def)
  ultimately show False by simp
qed

lemma erf_series_less: "erf_series x < sqrt pi / 2"
proof (cases "0 \<le> x")
  case True
  have "erf_series x < erf_series (x + 1)" by (rule erf_series_strict_mono) simp
  also have "erf_series (x + 1) \<le> sqrt (pi / 4)"
    by (rule real_le_rsqrt) (rule erf_series_sq_le, use True in simp)
  also have "sqrt (pi / 4) = sqrt pi / 2"
    by (simp add: real_sqrt_divide)
  finally show ?thesis .
next
  case False
  then have "erf_series x < erf_series 0" by (intro erf_series_strict_mono) simp
  also have "\<dots> < sqrt pi / 2" by (simp add: erf_series_0)
  finally show ?thesis .
qed

lemma erf_minus: "erf (- x) = - erf x"
  by (simp add: erf_def erf_series_minus)

lemma erf_0: "erf 0 = 0"
  by (simp add: erf_def erf_series_0)

lemma erf_less_1: "erf x < 1"
proof -
  have "2 / sqrt pi * erf_series x < 2 / sqrt pi * (sqrt pi / 2)"
    by (rule mult_strict_left_mono[OF erf_series_less]) simp
  then show ?thesis by (simp add: erf_def)
qed

lemma erf_greater_m1: "- 1 < erf x"
  using erf_less_1[of "- x"] by (simp add: erf_minus)

lemma erf_deriv: "DERIV erf x :> 2 / sqrt pi * exp (- (x\<^sup>2))"
  unfolding erf_def[abs_def] by (rule DERIV_cmult[OF erf_series_deriv])

lemma erf_strict_mono: "x < y \<Longrightarrow> erf x < erf y"
  unfolding erf_def by (intro mult_strict_left_mono erf_series_strict_mono) simp_all

lemma erf_nonneg: "0 \<le> x \<Longrightarrow> 0 \<le> erf x"
  unfolding erf_def by (intro mult_nonneg_nonneg erf_series_nonneg) simp_all

lemma erf_sqrt_lower: "1 - 1 / real (Suc n) \<le> erf (sqrt (real n))"
proof -
  define e where "e = erf (sqrt (real n))"
  have e0: "0 \<le> e" unfolding e_def by (rule erf_nonneg) simp
  have e1: "e \<le> 1" unfolding e_def using erf_less_1 by (rule less_imp_le)
  have w: "pi / (2 * real (2 * n + 1 + 1)) \<le> (wallis (2 * n + 1))\<^sup>2"
    by (rule wallis_sq_lower)
  have "real n * (pi / (2 * real (2 * n + 1 + 1))) \<le> real n * (wallis (2 * n + 1))\<^sup>2"
    by (rule mult_left_mono[OF w]) simp
  also have "\<dots> = (sqrt (real n) * wallis (2 * n + 1))\<^sup>2"
    by (simp add: power_mult_distrib)
  also have "\<dots> \<le> (erf_series (sqrt (real n)))\<^sup>2"
    by (rule power_mono[OF gauss_lower_wallis])
       (intro mult_nonneg_nonneg less_imp_le[OF wallis_pos], simp)
  finally have s: "real n * (pi / (2 * real (2 * n + 1 + 1))) \<le> (erf_series (sqrt (real n)))\<^sup>2" .
  have "1 - 1 / real (Suc n) = 4 / pi * (real n * (pi / (2 * real (2 * n + 1 + 1))))"
    by (simp add: field_simps)
  also have "\<dots> \<le> 4 / pi * (erf_series (sqrt (real n)))\<^sup>2"
    by (rule mult_left_mono[OF s]) simp
  also have "\<dots> = e\<^sup>2"
    by (simp add: e_def erf_def power_mult_distrib power_divide)
  also have "\<dots> \<le> e * 1"
    unfolding power2_eq_square by (rule mult_left_mono[OF e1 e0])
  finally show ?thesis by (simp add: e_def)
qed

lemma norm_cdf_pos: "0 < norm_cdf x"
  using erf_greater_m1[of "x / sqrt 2"] by (simp add: norm_cdf_def)

lemma norm_cdf_less_1: "norm_cdf x < 1"
  using erf_less_1[of "x / sqrt 2"] by (simp add: norm_cdf_def)


lemma norm_cdf_strict_mono: "x < y \<Longrightarrow> norm_cdf x < norm_cdf y"
  unfolding norm_cdf_def
  by (simp add: erf_strict_mono divide_strict_right_mono)

lemma norm_pdf_pos: "0 < norm_pdf x"
  by (simp add: norm_pdf_def)

lemma half_aux: "0.5 * (2 / p * E * (1 / a)) = E / (a * (p::real))"
  by simp

lemma norm_cdf_deriv: "DERIV norm_cdf x :> norm_pdf x"
proof -
  have 1: "DERIV (\<lambda>x. x / sqrt 2) x :> 1 / sqrt 2"
    by (rule DERIV_cdivide[OF DERIV_ident])
  have 2: "DERIV (\<lambda>x. erf (x / sqrt 2)) x
             :> 2 / sqrt pi * exp (- ((x / sqrt 2)\<^sup>2)) * (1 / sqrt 2)"
    by (rule DERIV_chain2[OF erf_deriv 1])
  have 3: "DERIV (\<lambda>x. 1 + erf (x / sqrt 2)) x
             :> 0 + 2 / sqrt pi * exp (- ((x / sqrt 2)\<^sup>2)) * (1 / sqrt 2)"
    by (rule DERIV_add[OF DERIV_const 2])
  have 4: "DERIV (\<lambda>x. 0.5 * (1 + erf (x / sqrt 2))) x
             :> 0.5 * (0 + 2 / sqrt pi * exp (- ((x / sqrt 2)\<^sup>2)) * (1 / sqrt 2))"
    by (rule DERIV_cmult[OF 3])
  have a: "- ((x / sqrt 2)\<^sup>2) = - 0.5 * x * x"
    by (simp add: power_divide power2_eq_square)
  have "0.5 * (0 + 2 / sqrt pi * exp (- ((x / sqrt 2)\<^sup>2)) * (1 / sqrt 2)) = norm_pdf x"
    by (simp only: add_0_left half_aux a norm_pdf_def real_sqrt_mult)
  with 4 show ?thesis by (simp only: norm_cdf_def[abs_def])
qed

lemma norm_cdf_small: "0 < e \<Longrightarrow> \<exists>y. \<forall>x \<le> y. norm_cdf x < e"
proof -
  assume e: "0 < e"
  obtain n :: nat where n: "1 / e < real n"
    using reals_Archimedean2 by blast
  have "1 / real (Suc n) < e"
    using n e by (simp add: field_simps)
  have c: "norm_cdf (- (sqrt 2 * sqrt (real n))) = 0.5 * (1 - erf (sqrt (real n)))"
    by (simp add: norm_cdf_def erf_minus)
  have l: "1 - erf (sqrt (real n)) \<le> 1 / real (Suc n)"
    using erf_sqrt_lower[of n] by linarith
  have "norm_cdf (- (sqrt 2 * sqrt (real n))) \<le> 0.5 * (1 / real (Suc n))"
    unfolding c by (rule mult_left_mono[OF l]) simp
  also have "\<dots> \<le> 1 * (1 / real (Suc n))"
    by (rule mult_right_mono) simp_all
  also have "\<dots> < e" using \<open>1 / real (Suc n) < e\<close> by (simp only: mult_1)
  finally have b: "norm_cdf (- (sqrt 2 * sqrt (real n))) < e" .
  have "\<forall>x \<le> - (sqrt 2 * sqrt (real n)). norm_cdf x < e"
  proof (intro allI impI)
    fix x :: real assume "x \<le> - (sqrt 2 * sqrt (real n))"
    then have "norm_cdf x \<le> norm_cdf (- (sqrt 2 * sqrt (real n)))"
      using norm_cdf_strict_mono[of x "- (sqrt 2 * sqrt (real n))"] by (cases "x = - (sqrt 2 * sqrt (real n))") auto
    with b show "norm_cdf x < e" by simp
  qed
  then show ?thesis by blast
qed

section \<open>Analysis of the call and put values\<close>

lemma split_aux: "(s::real) \<noteq> 0 \<Longrightarrow> (L + s * (s / 2)) / s = L / s + s / 2"
  by (simp add: add_divide_distrib)

lemma d1_alt:
  assumes "0 < T" "0 < v"
  shows "d_1 F K T v = ln (F / K) / (v * sqrt T) + v * sqrt T / 2"
proof -
  have s: "v * sqrt T \<noteq> 0" using assms by simp
  have "(v\<^sup>2 / 2) * T = (v * sqrt T) * (v * sqrt T / 2)"
    using assms by (simp add: power2_eq_square)
  then have "d_1 F K T v = (ln (F / K) + (v * sqrt T) * (v * sqrt T / 2)) / (v * sqrt T)"
    by (simp only: d_1_def)
  also have "\<dots> = ln (F / K) / (v * sqrt T) + v * sqrt T / 2"
    by (rule split_aux[OF s])
  finally show ?thesis .
qed

lemma d2_alt:
  assumes "0 < T" "0 < v"
  shows "d_2 F K T v = ln (F / K) / (v * sqrt T) - v * sqrt T / 2"
  unfolding d_2_def d1_alt[OF assms] by simp

lemma d_swap:
  assumes "0 < F" "0 < K" "0 < T" "0 < v"
  shows "- d_2 F K T v = d_1 K F T v" and "- d_1 F K T v = d_2 K F T v"
proof -
  have l: "ln (K / F) = - ln (F / K)"
    using assms by (simp add: ln_div)
  show "- d_2 F K T v = d_1 K F T v"
    unfolding d2_alt[OF assms(3,4)] d1_alt[OF assms(3,4)] l by simp
  show "- d_1 F K T v = d_2 K F T v"
    unfolding d2_alt[OF assms(3,4)] d1_alt[OF assms(3,4)] l by simp
qed

lemma put_call_swap:
  assumes "0 < F" "0 < K" "0 < T" "0 < v"
  shows "put_value F K T v = call_value K F T v"
  unfolding put_value_def call_value_def d_swap[OF assms] ..

lemma pdf_identity:
  assumes "0 < F" "0 < K" "0 < T" "0 < v"
  shows "F * norm_pdf (d_1 F K T v) = K * norm_pdf (d_2 F K T v)"
proof -
  define L where "L = ln (F / K)"
  define s where "s = v * sqrt T"
  have s: "s \<noteq> 0" using assms by (simp add: s_def)
  have a: "d_1 F K T v = L / s + s / 2" unfolding L_def s_def by (rule d1_alt[OF assms(3,4)])
  have b: "d_2 F K T v = L / s - s / 2" unfolding L_def s_def by (rule d2_alt[OF assms(3,4)])
  have "(L / s - s / 2) * (L / s - s / 2) = (L / s + s / 2) * (L / s + s / 2) - 2 * (L / s * s)"
    by (simp add: algebra_simps)
  also have "L / s * s = L" using s by simp
  finally have sq: "(L / s - s / 2) * (L / s - s / 2) = (L / s + s / 2) * (L / s + s / 2) - 2 * L" .
  have "exp (- 0.5 * (L / s - s / 2) * (L / s - s / 2))
        = exp (- 0.5 * ((L / s - s / 2) * (L / s - s / 2)))" by (simp add: mult.assoc)
  also have "\<dots> = exp (- 0.5 * ((L / s + s / 2) * (L / s + s / 2)) + L)"
    unfolding sq by (simp add: algebra_simps)
  also have "\<dots> = exp (- 0.5 * (L / s + s / 2) * (L / s + s / 2)) * exp L"
    by (simp only: exp_add mult.assoc)
  also have "exp L = F / K" using assms by (simp add: L_def)
  finally have e: "exp (- 0.5 * (L / s - s / 2) * (L / s - s / 2))
        = exp (- 0.5 * (L / s + s / 2) * (L / s + s / 2)) * (F / K)" .
  show ?thesis
    unfolding a b norm_pdf_def e using assms by simp
qed

lemma d1_deriv_F:
  assumes "0 < F" "0 < K"
  shows "\<exists>D. DERIV (\<lambda>F. d_1 F K T v) F :> D \<and> DERIV (\<lambda>F. d_2 F K T v) F :> D"
proof -
  have q: "0 < F / K" using assms by simp
  have 1: "DERIV (\<lambda>F. F / K) F :> 1 / K"
    by (rule DERIV_cdivide[OF DERIV_ident])
  have 2: "DERIV (\<lambda>F. ln (F / K)) F :> inverse (F / K) * (1 / K)"
    by (rule DERIV_chain2[OF DERIV_ln[OF q] 1])
  have 3: "DERIV (\<lambda>F. ln (F / K) + (v\<^sup>2 / 2) * T) F :> inverse (F / K) * (1 / K) + 0"
    by (rule DERIV_add[OF 2 DERIV_const])
  have 4: "DERIV (\<lambda>F. d_1 F K T v) F :> (inverse (F / K) * (1 / K) + 0) / (v * sqrt T)"
    unfolding d_1_def by (rule DERIV_cdivide[OF 3])
  have 5: "DERIV (\<lambda>F. d_1 F K T v - v * sqrt T) F
             :> (inverse (F / K) * (1 / K) + 0) / (v * sqrt T) - 0"
    by (rule DERIV_diff[OF 4 DERIV_const])
  from 4 5 show ?thesis unfolding d_2_def by (simp only: diff_zero) blast
qed

lemma call_value_deriv_F:
  assumes "0 < F" "0 < K" "0 < T" "0 < v"
  shows "DERIV (\<lambda>F. call_value F K T v) F :> norm_cdf (d_1 F K T v)"
proof -
  obtain D where D1: "DERIV (\<lambda>F. d_1 F K T v) F :> D" and D2: "DERIV (\<lambda>F. d_2 F K T v) F :> D"
    using d1_deriv_F[OF assms(1,2)] by blast
  have c1: "DERIV (\<lambda>F. norm_cdf (d_1 F K T v)) F :> norm_pdf (d_1 F K T v) * D"
    by (rule DERIV_chain2[OF norm_cdf_deriv D1])
  have c2: "DERIV (\<lambda>F. norm_cdf (d_2 F K T v)) F :> norm_pdf (d_2 F K T v) * D"
    by (rule DERIV_chain2[OF norm_cdf_deriv D2])
  have "DERIV (\<lambda>F. F * norm_cdf (d_1 F K T v) - K * norm_cdf (d_2 F K T v)) F
        :> (1 * norm_cdf (d_1 F K T v) + norm_pdf (d_1 F K T v) * D * F)
           - K * (norm_pdf (d_2 F K T v) * D)"
    by (rule DERIV_diff[OF DERIV_mult[OF DERIV_ident c1] DERIV_cmult[OF c2]])
  moreover have "(1 * norm_cdf (d_1 F K T v) + norm_pdf (d_1 F K T v) * D * F)
           - K * (norm_pdf (d_2 F K T v) * D) = norm_cdf (d_1 F K T v)"
  proof -
    have "norm_pdf (d_1 F K T v) * D * F = (F * norm_pdf (d_1 F K T v)) * D" by simp
    also have "\<dots> = K * (norm_pdf (d_2 F K T v) * D)"
      by (simp only: pdf_identity[OF assms] mult.assoc)
    finally show ?thesis by simp
  qed
  ultimately show ?thesis by (simp only: call_value_def[abs_def])
qed

lemma d1_deriv_v:
  assumes "0 < T" "0 < v"
  shows "\<exists>D. DERIV (\<lambda>v. d_1 F K T v) v :> D \<and> DERIV (\<lambda>v. d_2 F K T v) v :> D - sqrt T"
proof -
  have nz: "v * sqrt T \<noteq> 0" using assms by simp
  have n: "DERIV (\<lambda>v. ln (F / K) + (v\<^sup>2 / 2) * T) v :> 0 + (2 * v / 2) * T"
    by (rule derivative_eq_intros refl | simp)+
  have m: "DERIV (\<lambda>v. v * sqrt T) v :> 1 * sqrt T"
    by (rule DERIV_cmult_right[OF DERIV_ident])
  from DERIV_divide[OF n m nz]
  obtain D where D: "DERIV (\<lambda>v. d_1 F K T v) v :> D"
    unfolding d_1_def by blast
  have "DERIV (\<lambda>v. d_1 F K T v - v * sqrt T) v :> D - 1 * sqrt T"
    by (rule DERIV_diff[OF D m])
  then show ?thesis using D unfolding d_2_def by auto
qed

lemma call_value_deriv_v:
  assumes "0 < F" "0 < K" "0 < T" "0 < v"
  shows "DERIV (\<lambda>v. call_value F K T v) v :> F * norm_pdf (d_1 F K T v) * sqrt T"
proof -
  obtain D where D1: "DERIV (\<lambda>v. d_1 F K T v) v :> D"
    and D2: "DERIV (\<lambda>v. d_2 F K T v) v :> D - sqrt T"
    using d1_deriv_v[OF assms(3,4)] by blast
  have c1: "DERIV (\<lambda>v. norm_cdf (d_1 F K T v)) v :> norm_pdf (d_1 F K T v) * D"
    by (rule DERIV_chain2[OF norm_cdf_deriv D1])
  have c2: "DERIV (\<lambda>v. norm_cdf (d_2 F K T v)) v :> norm_pdf (d_2 F K T v) * (D - sqrt T)"
    by (rule DERIV_chain2[OF norm_cdf_deriv D2])
  have "DERIV (\<lambda>v. F * norm_cdf (d_1 F K T v) - K * norm_cdf (d_2 F K T v)) v
        :> F * (norm_pdf (d_1 F K T v) * D) - K * (norm_pdf (d_2 F K T v) * (D - sqrt T))"
    by (rule DERIV_diff[OF DERIV_cmult[OF c1] DERIV_cmult[OF c2]])
  moreover have "F * (norm_pdf (d_1 F K T v) * D) - K * (norm_pdf (d_2 F K T v) * (D - sqrt T))
                 = F * norm_pdf (d_1 F K T v) * sqrt T"
  proof -
    have "K * (norm_pdf (d_2 F K T v) * (D - sqrt T)) = (K * norm_pdf (d_2 F K T v)) * (D - sqrt T)"
      by simp
    also have "\<dots> = (F * norm_pdf (d_1 F K T v)) * (D - sqrt T)"
      by (simp only: pdf_identity[OF assms])
    finally show ?thesis by (simp add: algebra_simps)
  qed
  ultimately show ?thesis by (simp only: call_value_def[abs_def])
qed

lemma call_value_mono_F:
  assumes "0 < F1" "F1 < F2" "0 < K" "0 < T" "0 < v"
  shows "call_value F1 K T v < call_value F2 K T v"
proof (rule DERIV_pos_imp_increasing[OF assms(2), of "\<lambda>F. call_value F K T v"])
  fix x assume "F1 \<le> x" "x \<le> F2"
  then have "0 < x" using assms by simp
  from call_value_deriv_F[OF this assms(3,4,5)] norm_cdf_pos
  show "\<exists>y. DERIV (\<lambda>F. call_value F K T v) x :> y \<and> 0 < y" by blast
qed

lemma call_value_mono_v:
  assumes "0 < F" "0 < K" "0 < T" "0 < v1" "v1 < v2"
  shows "call_value F K T v1 < call_value F K T v2"
proof (rule DERIV_pos_imp_increasing[OF assms(5), of "\<lambda>v. call_value F K T v"])
  fix x assume "v1 \<le> x" "x \<le> v2"
  then have x: "0 < x" using assms by simp
  have "0 < F * norm_pdf (d_1 F K T x) * sqrt T"
    using assms norm_pdf_pos by simp
  with call_value_deriv_v[OF assms(1,2,3) x]
  show "\<exists>y. DERIV (\<lambda>v. call_value F K T v) x :> y \<and> 0 < y" by blast
qed

lemma call_value_pos:
  assumes "0 < F" "0 < K" "0 < T" "0 < v"
  shows "0 < call_value F K T v"
proof (rule ccontr)
  assume "\<not> ?thesis"
  then have neg: "call_value F K T v \<le> 0" by simp
  define G where "G = F / 2"
  have G: "0 < G" "G < F" using assms by (simp_all add: G_def)
  define e where "e = - call_value G K T v"
  have "call_value G K T v < call_value F K T v"
    by (rule call_value_mono_F[OF G assms(2,3,4)])
  with neg have e: "0 < e" by (simp add: e_def)
  then have "0 < e / K" using assms by simp
  from norm_cdf_small[OF this] obtain y where y: "\<And>x. x \<le> y \<Longrightarrow> norm_cdf x < e / K"
    by blast
  define s where "s = v * sqrt T"
  have s: "0 < s" using assms by (simp add: s_def)
  define H where "H = min G (K * exp (y * s))"
  have H: "0 < H" "H \<le> G" "H \<le> K * exp (y * s)"
    using G assms by (simp_all add: H_def)
  have "H / K \<le> exp (y * s)" using H assms by (simp add: pos_divide_le_eq mult.commute)
  moreover have "exp (ln (H / K)) = H / K" using H assms by simp
  ultimately have "exp (ln (H / K)) \<le> exp (y * s)" by simp
  then have "ln (H / K) \<le> y * s"
    by (simp only: exp_le_cancel_iff)
  then have "ln (H / K) / s \<le> y" using s by (simp add: pos_divide_le_eq)
  then have "d_2 H K T v \<le> y"
    unfolding d2_alt[OF assms(3,4)] using s by (simp add: s_def)
  from y[OF this] have "K * norm_cdf (d_2 H K T v) < K * (e / K)"
    using assms by (intro mult_strict_left_mono) simp_all
  then have k: "K * norm_cdf (d_2 H K T v) < e" using assms by simp
  have "0 \<le> H * norm_cdf (d_1 H K T v)"
    using H norm_cdf_pos[of "d_1 H K T v"] by simp
  with k have "- e < call_value H K T v" by (simp add: call_value_def)
  moreover have "call_value H K T v \<le> call_value G K T v"
    using call_value_mono_F[OF H(1) _ assms(2,3,4), of G] H(2) by (cases "H = G") auto
  ultimately show False by (simp add: e_def)
qed

lemma put_value_pos:
  assumes "0 < F" "0 < K" "0 < T" "0 < v"
  shows "0 < put_value F K T v"
  unfolding put_call_swap[OF assms] by (rule call_value_pos[OF assms(2,1,3,4)])


section \<open>The engine on valid inputs\<close>

lemma lower_call: "lower ''call'' = ''call''"
  by code_simp

lemma lower_put: "lower ''put'' = ''put''"
  by code_simp

lemma lower_CALL: "lower ''CALL'' = ''call''"
  by code_simp

lemma lower_Put: "lower ''Put'' = ''put''"
  by code_simp

lemma lower_straddle: "lower ''straddle'' = ''straddle''"
  by code_simp

lemma OptionType_of_enum: "OptionType_of (lower (str_value (AsEnum ot))) = Inr ot"
  by (cases ot) (simp_all add: lower_call lower_put OptionType_of_def)

lemma black76_price_valid:
  assumes "0 < F" "0 < K" "0 < T" "0 < v"
    and "OptionType_of (lower (str_value a)) = Inr ot"
  shows "black76_price F K T D v a =
           Inr \<lparr>price = D * (if ot = CALL then call_value F K T v else put_value F K T v),
                delta = (if ot = CALL then D * norm_cdf (d_1 F K T v)
                         else - D * norm_cdf (- d_1 F K T v)),
                gamma = D * norm_pdf (d_1 F K T v) / (F * v * sqrt T),
                vega = D * F * norm_pdf (d_1 F K T v) * sqrt T / 100\<rparr>"
proof -
  have q: "\<not> F / K \<le> 0" using assms(1,2) by (simp add: not_le)
  show ?thesis
    using assms q
    by (simp add: black76_price_def bind_exn_def math_sqrt_def py_div_def math_log_def
          d_1_def d_2_def call_value_def put_value_def Let_def)
qed

lemma Phi_eq: "Phi = norm_cdf"
  by (rule ext) (simp add: Phi_def norm_cdf_def)

lemma phi_eq: "phi = norm_pdf"
  by (rule ext) (simp add: phi_def norm_pdf_def power2_eq_square)

lemma closed_form_eq:
  "black76_closed_form ot F K T D v =
     \<lparr>price = D * (if ot = CALL then call_value F K T v else put_value F K T v),
      delta = (if ot = CALL then D * norm_cdf (d_1 F K T v)
               else - D * norm_cdf (- d_1 F K T v)),
      gamma = D * norm_pdf (d_1 F K T v) / (F * v * sqrt T),
      vega = D * F * norm_pdf (d_1 F K T v) * sqrt T / 100\<rparr>"
  by (cases ot)
     (simp_all add: black76_closed_form_def Phi_eq phi_eq d_1_def d_2_def
        call_value_def put_value_def Let_def)

lemma black76_price_call:
  assumes "0 < F" "0 < K" "0 < T" "0 < v"
  shows "black76_price F K T D v (AsEnum CALL) =
           Inr \<lparr>price = D * call_value F K T v,
                delta = D * norm_cdf (d_1 F K T v),
                gamma = D * norm_pdf (d_1 F K T v) / (F * v * sqrt T),
                vega = D * F * norm_pdf (d_1 F K T v) * sqrt T / 100\<rparr>"
  using black76_price_valid[OF assms OptionType_of_enum[of CALL], of D] by simp

lemma black76_price_put:
  assumes "0 < F" "0 < K" "0 < T" "0 < v"
  shows "black76_price F K T D v (AsEnum PUT) =
           Inr \<lparr>price = D * put_value F K T v,
                delta = - D * norm_cdf (- d_1 F K T v),
                gamma = D * norm_pdf (d_1 F K T v) / (F * v * sqrt T),
                vega = D * F * norm_pdf (d_1 F K T v) * sqrt T / 100\<rparr>"
  using black76_price_valid[OF assms OptionType_of_enum[of PUT], of D] by simp

lemma black76_price_invalid_type:
  assumes "0 < F" "0 < K" "0 < T" "0 < v"
    and "lower (str_value a) \<noteq> ''call''" "lower (str_value a) \<noteq> ''put''"
  shows "black76_price F K T D v a =
           Inl (ValueError [Repr (lower (str_value a)), Txt '' is not a valid OptionType''])"
  using assms by (simp add: black76_price_def bind_exn_def OptionType_of_def)

lemma gamma_pos:
  assumes "0 < F" "0 < T" "0 < v" "0 < D"
  shows "0 < D * norm_pdf x / (F * v * sqrt T)"
  using assms norm_pdf_pos[of x] by simp

lemma vega_pos:
  assumes "0 < F" "0 < T" "0 < D"
  shows "0 < D * F * norm_pdf x * sqrt T / 100"
  using assms norm_pdf_pos[of x] by simp

lemma round_half_even_close: "\<bar>of_int (round_half_even x) - x\<bar> \<le> 1 / 2"
proof -
  have "of_int \<lfloor>x\<rfloor> \<le> x" "x < of_int \<lfloor>x\<rfloor> + 1" by linarith+
  then show ?thesis
    unfolding round_half_even_def Let_def by (auto split: if_splits)
qed

lemma py_round_rounded_to: "rounded_to n x (py_round x (int n))"
proof -
  define k where "k = round_half_even (x * 10 ^ n)"
  have y: "py_round x (int n) = of_int k / 10 ^ n"
    by (simp add: py_round_def k_def)
  have "of_int k / 10 ^ n * 10 ^ n = (of_int k :: real)" by simp
  then have i: "py_round x (int n) * 10 ^ n \<in> \<int>" unfolding y by simp
  have "\<bar>of_int k / 10 ^ n - x\<bar> = \<bar>(of_int k - x * 10 ^ n) / 10 ^ n\<bar>"
    by (simp add: diff_divide_distrib)
  also have "\<dots> = \<bar>of_int k - x * 10 ^ n\<bar> / 10 ^ n"
    by (simp add: abs_divide)
  also have "\<dots> \<le> (1 / 2) / 10 ^ n"
    unfolding k_def by (rule divide_right_mono[OF round_half_even_close]) simp
  finally have "\<bar>py_round x (int n) - x\<bar> \<le> 1 / (2 * 10 ^ n)"
    unfolding y by simp
  with i show ?thesis by (simp add: rounded_to_def)
qed

lemma tool_success:
  assumes "OptionType_of s = Inr ot" "black76_price F K T D v (AsEnum ot) = Inr r"
  shows "price_option_black76 F K T D v s = success_response F K s r"
  using assms by (simp add: price_option_black76_def bind_exn_def)

lemma except_clauses_eq:
  "except_clauses e = JObj [(''status'', JStr ''error''), (''message'', JText (str_exn e))]"
  by (cases e) simp_all

lemma tool_error_parse:
  assumes "OptionType_of s = Inl e"
  shows "price_option_black76 F K T D v s
           = JObj [(''status'', JStr ''error''), (''message'', JText (str_exn e))]"
  using assms by (simp add: price_option_black76_def bind_exn_def except_clauses_eq)

section \<open>Rounding to binary64 and the engine on non-finite values\<close>

lemma round_half_even_of_int: "round_half_even (of_int k) = k"
  by (simp add: round_half_even_def)

lemma round_half_even_ge: "of_int k \<le> x \<Longrightarrow> k \<le> round_half_even x"
proof -
  assume "of_int k \<le> x"
  then have "k \<le> \<lfloor>x\<rfloor>" by (simp add: le_floor_iff)
  then show ?thesis
    unfolding round_half_even_def Let_def by (auto split: if_splits)
qed

lemma round_half_even_le: "x \<le> of_int k \<Longrightarrow> round_half_even x \<le> k"
proof -
  assume x: "x \<le> of_int k"
  have f: "of_int \<lfloor>x\<rfloor> \<le> x" "x < of_int \<lfloor>x\<rfloor> + 1" by linarith+
  show ?thesis
  proof (cases "x = of_int k")
    case True
    then show ?thesis by (simp add: round_half_even_of_int)
  next
    case False
    with x have "x < of_int k" by simp
    then have "\<lfloor>x\<rfloor> < k" by (simp add: floor_less_iff)
    then have "\<lfloor>x\<rfloor> + 1 \<le> k" by simp
    moreover have "round_half_even x \<le> \<lfloor>x\<rfloor> + 1"
      unfolding round_half_even_def Let_def by (auto split: if_splits)
    ultimately show ?thesis by simp
  qed
qed

lemma rnd64_pow2:
  assumes "- 1022 \<le> k"
  shows "rnd64 (2 powr of_int k) = (if 1024 \<le> k then PInf else Fin (2 powr of_int k))"
proof -
  define x :: real where "x = 2 powr of_int k"
  have xpos: "0 < x" by (simp add: x_def)
  have l: "\<lfloor>log 2 \<bar>x\<bar>\<rfloor> = k" using xpos by (simp add: x_def)
  have e: "max \<lfloor>log 2 \<bar>x\<bar>\<rfloor> (- 1022) = k" unfolding l using assms by simp
  have q: "x / 2 powr of_int (k - 52) = of_int (2 ^ 52)"
    by (simp add: x_def powr_diff)
  have y: "of_int (round_half_even (x / 2 powr of_int (k - 52))) * 2 powr of_int (k - 52) = x"
    unfolding q round_half_even_of_int by (simp add: x_def powr_diff)
  have b: "(2 powr 1024 \<le> \<bar>x\<bar>) = (1024 \<le> k)"
  proof -
    have "(2 powr 1024 \<le> (2::real) powr of_int k) = ((1024::real) \<le> of_int k)"
      by (rule powr_le_cancel_iff) simp
    also have "\<dots> = (1024 \<le> k)" by linarith
    finally show ?thesis using xpos by (simp only: x_def abs_of_pos)
  qed
  have "rnd64 x = (if 1024 \<le> k then PInf else Fin x)"
    using xpos unfolding rnd64_def Let_def e y b by simp
  then show ?thesis by (simp add: x_def)
qed

lemma rnd64_0: "rnd64 0 = Fin 0"
  by (simp add: rnd64_def)

lemma rnd64_1: "rnd64 1 = Fin 1"
  using rnd64_pow2[of 0] by simp

lemma rnd64_2: "rnd64 2 = Fin 2"
  using rnd64_pow2[of 1] by simp

lemma rnd64_4: "rnd64 4 = Fin 4"
proof -
  have "(2::real) powr of_int 2 = 4" by simp
  with rnd64_pow2[of 2] show ?thesis by simp
qed

lemma rnd64_half: "rnd64 (1 / 2) = Fin (1 / 2)"
proof -
  have "(2::real) powr of_int (- 1) = 1 / 2" by (simp add: powr_minus_divide)
  with rnd64_pow2[of "- 1"] show ?thesis by simp
qed

lemma rnd64_overflow: "rnd64 (2 ^ 700 * 2 ^ 700) = PInf"
proof -
  have "(2::real) powr of_int 1400 = 2 ^ 700 * 2 ^ 700"
    by simp
  with rnd64_pow2[of 1400] show ?thesis by simp
qed

lemma rnd64_ge1:
  assumes x1: "1 \<le> x" and xu: "x \<le> 2 powr 1000"
  shows "\<exists>y. rnd64 x = Fin y \<and> 1 \<le> y \<and> y \<le> 2 * x"
proof -
  define e where "e = \<lfloor>log 2 x\<rfloor>"
  define q :: real where "q = 2 powr of_int (e - 52)"
  define r where "r = round_half_even (x / q)"
  have xpos: "0 < x" using x1 by simp
  have l0: "0 \<le> log 2 x" using x1 by simp
  have lu: "log 2 x \<le> 1000"
  proof -
    have "log 2 x \<le> log 2 (2 powr 1000)"
      using xpos xu by (subst log_le_cancel_iff) simp_all
    moreover have "log 2 ((2::real) powr 1000) = 1000"
      by (rule log_powr_cancel) simp_all
    ultimately show ?thesis by (simp only:)
  qed
  have e0: "0 \<le> e" unfolding e_def using l0 by simp
  have eu: "e \<le> 1000" unfolding e_def using lu by (simp add: floor_le_iff)
  have qpos: "0 < q" by (simp add: q_def)
  have "of_int e \<le> log 2 x" unfolding e_def by simp
  then have "2 powr of_int e \<le> 2 powr (log 2 x)" by (rule powr_mono) simp
  then have lo: "2 powr of_int e \<le> x" using xpos by simp
  have "log 2 x < of_int e + 1" unfolding e_def by linarith
  then have "2 powr (log 2 x) < 2 powr (of_int e + 1)" by (rule powr_less_mono) simp
  then have hi: "x < 2 powr (of_int e + 1)" using xpos by simp
  have pe: "2 powr of_int e = 2 ^ 52 * q"
    by (simp add: q_def powr_diff)
  have pe1: "2 powr (of_int e + 1) = 2 ^ 53 * q"
    by (simp add: q_def powr_diff powr_add)
  have m1: "of_int (2 ^ 52) \<le> x / q"
    using lo qpos unfolding pe by (simp add: pos_le_divide_eq)
  have m2: "x / q \<le> of_int (2 ^ 53)"
    using hi qpos unfolding pe1 by (simp add: pos_divide_le_eq)
  have r1: "2 ^ 52 \<le> r" unfolding r_def by (rule round_half_even_ge[OF m1])
  have r2: "r \<le> 2 ^ 53" unfolding r_def by (rule round_half_even_le[OF m2])
  have "of_int (2 ^ 52) * q \<le> of_int r * q"
    using r1 qpos by (intro mult_right_mono) simp_all
  then have y1: "2 powr of_int e \<le> of_int r * q" unfolding pe by simp
  have "of_int r * q \<le> of_int (2 ^ 53) * q"
    using r2 qpos by (intro mult_right_mono) simp_all
  then have y2: "of_int r * q \<le> 2 powr (of_int e + 1)" unfolding pe1 by simp
  have "(1::real) = 2 powr 0" by simp
  also have "\<dots> \<le> 2 powr of_int e" by (rule powr_mono) (use e0 in simp_all)
  finally have ge1: "1 \<le> of_int r * q" using y1 by simp
  have "(2::real) powr (of_int e + 1) = 2 * 2 powr of_int e" by (simp add: powr_add)
  with lo y2 have le2x: "of_int r * q \<le> 2 * x" by simp
  have "2 powr (of_int e + 1) \<le> (2::real) powr 1001"
    by (rule powr_mono) (use eu in simp_all)
  also have "\<dots> < 2 powr 1024" by (rule powr_less_mono) simp_all
  finally have "of_int r * q < 2 powr 1024" using y2 by simp
  then have nov: "\<not> 2 powr 1024 \<le> \<bar>of_int r * q\<bar>" using ge1 by simp
  have em: "max \<lfloor>log 2 \<bar>x\<bar>\<rfloor> (- 1022) = e"
  proof -
    have "\<bar>x\<bar> = x" using xpos by simp
    then have "\<lfloor>log 2 \<bar>x\<bar>\<rfloor> = e" by (simp only: e_def)
    with e0 show ?thesis by simp
  qed
  have "rnd64 x = Fin (of_int r * q)"
    using xpos nov unfolding rnd64_def Let_def em r_def q_def by (simp del: powr_numeral)
  with ge1 le2x show ?thesis by blast
qed

lemma small_bound: "x \<le> 32 \<Longrightarrow> x \<le> (2::real) powr 1000"
proof -
  assume "x \<le> 32"
  also have "(32::real) = 2 powr 5" by simp
  also have "\<dots> \<le> 2 powr 1000" by (rule powr_mono) simp_all
  finally show ?thesis .
qed

lemma sqrt_2_double: "\<exists>c. dmath_sqrt (Fin 2) = Inr (Fin c) \<and> c \<noteq> 0"
proof -
  have "1 \<le> sqrt 2" by simp
  moreover have "sqrt 2 \<le> 2 powr 1000"
    by (rule small_bound) (simp add: real_le_lsqrt)
  ultimately obtain c where "rnd64 (sqrt 2) = Fin c" "1 \<le> c"
    using rnd64_ge1 by blast
  then show ?thesis by auto
qed

lemma sqrt_2_pi_double: "\<exists>c. dmath_sqrt (dmul (Fin 2) math_pi) = Inr (Fin c) \<and> c \<noteq> 0"
proof -
  have pi1: "1 \<le> pi" using pi_ge_two by simp
  have pi4: "pi \<le> 4" using pi_less_4 by simp
  from rnd64_ge1[OF pi1 small_bound] pi4
  obtain p where p: "rnd64 pi = Fin p" "1 \<le> p" "p \<le> 2 * pi" by auto
  have "1 \<le> 2 * p" using p by simp
  moreover have "2 * p \<le> 2 powr 1000" by (rule small_bound) (use p pi4 in simp)
  ultimately obtain p2 where p2: "rnd64 (2 * p) = Fin p2" "1 \<le> p2" "p2 \<le> 2 * (2 * p)"
    using rnd64_ge1 by blast
  have "1 \<le> sqrt p2" using p2 by simp
  moreover have "sqrt p2 \<le> 2 powr 1000"
  proof (rule small_bound)
    have "sqrt p2 \<le> p2" using p2(2) by (simp add: real_le_lsqrt power2_eq_square)
    with p2 p pi4 show "sqrt p2 \<le> 32" by simp
  qed
  ultimately obtain c where c: "rnd64 (sqrt p2) = Fin c" "1 \<le> c"
    using rnd64_ge1 by blast
  have "\<not> p2 < 0" using p2 by simp
  then show ?thesis using p p2 c by (auto simp: math_pi_def)
qed

lemma norm_cdf_double_NaN: "norm_cdf_double NaN = Inr NaN"
proof -
  obtain c where "dmath_sqrt (Fin 2) = Inr (Fin c)" "c \<noteq> 0"
    using sqrt_2_double by blast
  then show ?thesis by (simp add: norm_cdf_double_def bind_exn_def)
qed

lemma norm_pdf_double_NaN: "norm_pdf_double NaN = Inr NaN"
proof -
  obtain c where "dmath_sqrt (dmul (Fin 2) math_pi) = Inr (Fin c)" "c \<noteq> 0"
    using sqrt_2_pi_double by blast
  then show ?thesis by (simp add: norm_pdf_double_def bind_exn_def)
qed

lemma dadd_rnd64_PInf: "0 < x \<Longrightarrow> dadd (rnd64 x) PInf = PInf"
  by (simp add: rnd64_def Let_def)

lemma dpow2_overflow:
  "dpow2 (Fin (2 ^ 700))
     = Inl (OtherException ''OverflowError'' [Txt ''(34, 'Numerical result out of range')''])"
  by (simp only: dpow2.simps rnd64_overflow double.case)

lemma rnd64_between:
  assumes a: "- 1022 \<le> a" and b: "b \<le> 1023"
    and lo: "2 powr of_int a \<le> x" and hi: "x \<le> 2 powr of_int b"
  shows "\<exists>y. rnd64 x = Fin y \<and> 2 powr of_int a \<le> y \<and> y \<le> 2 powr of_int b"
proof (cases "x = 2 powr of_int b")
  case True
  have ab: "a \<le> b"
  proof -
    have "(2::real) powr of_int a \<le> 2 powr of_int b" using lo hi by (rule order_trans)
    then show ?thesis by simp
  qed
  have "rnd64 x = Fin (2 powr of_int b)"
    unfolding True using rnd64_pow2[of b] a b ab by simp
  then show ?thesis using lo True by auto
next
  case False
  with hi have hi': "x < 2 powr of_int b" by simp
  define e where "e = \<lfloor>log 2 x\<rfloor>"
  define q :: real where "q = 2 powr of_int (e - 52)"
  define r where "r = round_half_even (x / q)"
  have xpos: "0 < x"
  proof -
    have "(0::real) < 2 powr of_int a" by simp
    with lo show ?thesis by linarith
  qed
  have "of_int a \<le> log 2 x"
  proof -
    have "log 2 (2 powr of_int a) \<le> log 2 x"
      using xpos lo by (subst log_le_cancel_iff) simp_all
    then show ?thesis by simp
  qed
  then have ea: "a \<le> e" unfolding e_def by (simp add: le_floor_iff)
  have "log 2 x < of_int b"
  proof -
    have "log 2 x < log 2 (2 powr of_int b)"
      using xpos hi' by (subst log_less_cancel_iff) simp_all
    then show ?thesis by simp
  qed
  then have "e < b" unfolding e_def by (simp add: floor_less_iff)
  then have eb: "e + 1 \<le> b" by simp
  have qpos: "0 < q" by (simp add: q_def)
  have "of_int e \<le> log 2 x" unfolding e_def by simp
  then have "2 powr of_int e \<le> 2 powr (log 2 x)" by (rule powr_mono) simp
  then have xl: "2 powr of_int e \<le> x" using xpos by simp
  have "log 2 x < of_int e + 1" unfolding e_def by linarith
  then have "2 powr (log 2 x) < 2 powr (of_int e + 1)" by (rule powr_less_mono) simp
  then have xh: "x < 2 powr (of_int e + 1)" using xpos by simp
  have pe: "2 powr of_int e = 2 ^ 52 * q"
    by (simp add: q_def powr_diff)
  have pe1: "2 powr (of_int e + 1) = 2 ^ 53 * q"
    by (simp add: q_def powr_diff powr_add)
  have m1: "of_int (2 ^ 52) \<le> x / q"
    using xl qpos unfolding pe by (simp add: pos_le_divide_eq)
  have m2: "x / q \<le> of_int (2 ^ 53)"
    using xh qpos unfolding pe1 by (simp add: pos_divide_le_eq)
  have r1: "2 ^ 52 \<le> r" unfolding r_def by (rule round_half_even_ge[OF m1])
  have r2: "r \<le> 2 ^ 53" unfolding r_def by (rule round_half_even_le[OF m2])
  have "of_int (2 ^ 52) * q \<le> of_int r * q"
    using r1 qpos by (intro mult_right_mono) simp_all
  then have y1: "2 powr of_int e \<le> of_int r * q" unfolding pe by simp
  have "of_int r * q \<le> of_int (2 ^ 53) * q"
    using r2 qpos by (intro mult_right_mono) simp_all
  then have y2: "of_int r * q \<le> 2 powr (of_int e + 1)" unfolding pe1 by simp
  have "(2::real) powr of_int a \<le> 2 powr of_int e"
    by (rule powr_mono) (use ea in simp_all)
  from this y1 have ya: "2 powr of_int a \<le> of_int r * q" by (rule order_trans)
  have "(2::real) powr (of_int e + 1) \<le> 2 powr of_int b"
    by (rule powr_mono) (use eb in simp_all)
  from y2 this have yb: "of_int r * q \<le> 2 powr of_int b" by (rule order_trans)
  have "(2::real) powr of_int b < 2 powr 1024"
    by (rule powr_less_mono) (use b in simp_all)
  from yb this have "of_int r * q < 2 powr 1024" by (rule le_less_trans)
  moreover have "0 < of_int r * q"
  proof -
    have "(0::real) < 2 powr of_int a" by simp
    with ya show ?thesis by linarith
  qed
  ultimately have nov: "\<not> 2 powr 1024 \<le> \<bar>of_int r * q\<bar>" by simp
  have em: "max \<lfloor>log 2 \<bar>x\<bar>\<rfloor> (- 1022) = e"
  proof -
    have "\<bar>x\<bar> = x" using xpos by simp
    then have "\<lfloor>log 2 \<bar>x\<bar>\<rfloor> = e" by (simp only: e_def)
    with ea a show ?thesis by simp
  qed
  have "rnd64 x = Fin (of_int r * q)"
    using xpos nov unfolding rnd64_def Let_def em r_def q_def by (simp del: powr_numeral)
  with ya yb show ?thesis by blast
qed

lemma rnd64_tiny:
  assumes "0 < x" "x \<le> 2 powr (- 1075)"
  shows "rnd64 x = Fin 0"
proof -
  have "log 2 x \<le> log 2 (2 powr (- 1075))"
    using assms by (subst log_le_cancel_iff) simp_all
  moreover have "log 2 ((2::real) powr (- 1075)) = - 1075"
    by (rule log_powr_cancel) simp_all
  ultimately have "log 2 x \<le> - 1075" by (simp only:)
  then have "\<lfloor>log 2 x\<rfloor> \<le> - 1075" by (simp add: floor_le_iff)
  then have em: "max \<lfloor>log 2 \<bar>x\<bar>\<rfloor> (- 1022) = - 1022"
    using assms(1) by simp
  define m where "m = x / 2 powr of_int (- 1022 - 52)"
  have q: "(2::real) powr (- 1075) = 2 powr of_int (- 1022 - 52) / 2"
  proof -
    have "(2::real) powr (- 1075) = 2 powr (of_int (- 1022 - 52) - 1)" by simp
    also have "\<dots> = 2 powr of_int (- 1022 - 52) / 2" by (simp only: powr_diff powr_one)
    finally show ?thesis .
  qed
  have m0: "0 < m" using assms(1) by (simp add: m_def)
  have m1: "m \<le> 1 / 2"
    using assms(2) unfolding q m_def by (simp add: pos_divide_le_eq)
  have f: "\<lfloor>m\<rfloor> = 0" using m0 m1 by (simp add: floor_eq_iff)
  have "round_half_even m = 0"
    unfolding round_half_even_def Let_def f using m1 by simp
  then show ?thesis
    using assms(1) unfolding rnd64_def Let_def em m_def by simp
qed

lemma rnd64_min_subnormal: "rnd64 (2 powr (- 1074)) = Fin (2 powr (- 1074))"
proof -
  define x :: real where "x = 2 powr (- 1074)"
  have xpos: "0 < x" by (simp add: x_def)
  have "log 2 x = - 1074" unfolding x_def by (rule log_powr_cancel) simp_all
  then have em: "max \<lfloor>log 2 \<bar>x\<bar>\<rfloor> (- 1022) = - 1022"
    using xpos by simp
  have q: "(2::real) powr of_int (- 1022 - 52) = x" by (simp add: x_def)
  have "x < 2 powr 1024" unfolding x_def by (rule powr_less_mono) simp_all
  then have nov: "\<not> 2 powr 1024 \<le> \<bar>x\<bar>" using xpos by simp
  have r: "round_half_even (x / x) = 1"
    using xpos round_half_even_of_int[of 1] by simp
  have "rnd64 x = Fin x"
    using xpos nov unfolding rnd64_def Let_def em q r by simp
  then show ?thesis by (simp only: x_def)
qed

lemma rnd64_neg_pow2:
  assumes "- 1022 \<le> k" "k \<le> 1023"
  shows "rnd64 (- (2 powr of_int k)) = Fin (- (2 powr of_int k))"
proof -
  define x :: real where "x = - (2 powr of_int k)"
  have xneg: "x < 0" by (simp add: x_def)
  have ax: "\<bar>x\<bar> = 2 powr of_int k" by (simp add: x_def)
  have l: "\<lfloor>log 2 \<bar>x\<bar>\<rfloor> = k" unfolding ax by simp
  have e: "max \<lfloor>log 2 \<bar>x\<bar>\<rfloor> (- 1022) = k" unfolding l using assms by simp
  have q: "x / 2 powr of_int (k - 52) = of_int (- (2 ^ 52))"
    by (simp add: x_def powr_diff)
  have y: "of_int (round_half_even (x / 2 powr of_int (k - 52))) * 2 powr of_int (k - 52) = x"
    unfolding q round_half_even_of_int by (simp add: x_def powr_diff)
  have "(2::real) powr of_int k < 2 powr 1024"
    by (rule powr_less_mono) (use assms in simp_all)
  then have nov: "\<not> 2 powr 1024 \<le> \<bar>x\<bar>" unfolding ax by simp
  have "rnd64 x = Fin x"
    using xneg nov unfolding rnd64_def Let_def e y by simp
  then show ?thesis by (simp add: x_def)
qed

lemma rnd64_neg_half: "rnd64 (- (1 / 2)) = Fin (- (1 / 2))"
proof -
  have "(2::real) powr of_int (- 1) = 1 / 2" by (simp add: powr_minus_divide)
  with rnd64_neg_pow2[of "- 1"] show ?thesis by simp
qed

lemma rnd64_neg_quarter: "rnd64 (- (1 / 4)) = Fin (- (1 / 4))"
proof -
  have h: "(2::real) powr of_int (- 2) = 1 / 4" by (simp add: powr_minus_divide)
  show ?thesis using rnd64_neg_pow2[of "- 2"] unfolding h by simp
qed

lemma rnd64_neg_eighth: "rnd64 (- (1 / 8)) = Fin (- (1 / 8))"
proof -
  have h: "(2::real) powr of_int (- 3) = 1 / 8" by (simp add: powr_minus_divide)
  show ?thesis using rnd64_neg_pow2[of "- 3"] unfolding h by simp
qed

lemma rnd64_range:
  assumes "1 / 8 \<le> x" "x \<le> 1 / 2"
  shows "\<exists>y. rnd64 x = Fin y \<and> 1 / 8 \<le> y \<and> y \<le> 1 / 2"
proof -
  have a: "(2::real) powr of_int (- 3) = 1 / 8" by (simp add: powr_minus_divide)
  have b: "(2::real) powr of_int (- 1) = 1 / 2" by (simp add: powr_minus_divide)
  from rnd64_between[of "- 3" "- 1" x] assms show ?thesis
    unfolding a b by simp
qed

lemma exp_eighth_double: "\<exists>y. rnd64 (exp (- (1 / 8))) = Fin y \<and> 1 / 2 \<le> y \<and> y \<le> 1"
proof -
  have lo: "1 / 2 \<le> exp (- (1 / 8) :: real)"
    using exp_ge_add_one_self[of "- (1 / 8) :: real"] by simp
  have hi: "exp (- (1 / 8) :: real) \<le> 1" by simp
  have a: "(2::real) powr of_int (- 1) = 1 / 2" by (simp add: powr_minus_divide)
  have b: "(2::real) powr of_int 0 = 1" by simp
  from rnd64_between[of "- 1" 0 "exp (- (1 / 8))"] lo hi show ?thesis
    unfolding a b by simp
qed

lemma sqrt_2_pi_double_range:
  "\<exists>s. dmath_sqrt (dmul (Fin 2) math_pi) = Inr (Fin s) \<and> 2 \<le> s \<and> s \<le> 4"
proof -
  have p2: "(2::real) powr of_int 1 = 2" by simp
  have p4: "(2::real) powr of_int 2 = 4" by simp
  have p8: "(2::real) powr of_int 3 = 8" by simp
  have "2 \<le> pi" by (rule pi_ge_two)
  moreover have "pi \<le> 4" using pi_less_4 by simp
  ultimately obtain p where p: "rnd64 pi = Fin p" "2 \<le> p" "p \<le> 4"
    using rnd64_between[of 1 2 pi] unfolding p2 p4 by auto
  have "4 \<le> 2 * p" "2 * p \<le> 8" using p by simp_all
  then obtain w where w: "rnd64 (2 * p) = Fin w" "4 \<le> w" "w \<le> 8"
    using rnd64_between[of 2 3 "2 * p"] unfolding p4 p8 by auto
  have "2 \<le> sqrt w"
    using w(2) by (intro real_le_rsqrt) simp
  moreover have "sqrt w \<le> 4"
    using w(3) by (intro real_le_lsqrt) simp_all
  ultimately obtain s where s: "rnd64 (sqrt w) = Fin s" "2 \<le> s" "s \<le> 4"
    using rnd64_between[of 1 2 "sqrt w"] unfolding p2 p4 by auto
  have "\<not> w < 0" using w by simp
  then show ?thesis using p w s by (auto simp: math_pi_def)
qed

lemma norm_pdf_double_half:
  "\<exists>c. norm_pdf_double (Fin (1 / 2)) = Inr (Fin c) \<and> 1 / 8 \<le> c \<and> c \<le> 1 / 2"
proof -
  obtain y where y: "rnd64 (exp (- (1 / 8))) = Fin y" "1 / 2 \<le> y" "y \<le> 1"
    using exp_eighth_double by blast
  obtain s where s: "dmath_sqrt (dmul (Fin 2) math_pi) = Inr (Fin s)" "2 \<le> s" "s \<le> 4"
    using sqrt_2_pi_double_range by blast
  have spos: "0 < s" using s by simp
  have "y / s \<le> 1 / 2"
  proof -
    have "y / s \<le> 1 / s" using y spos by (simp add: divide_right_mono)
    also have "\<dots> \<le> 1 / 2" using s by (simp add: field_simps)
    finally show ?thesis .
  qed
  moreover have "1 / 8 \<le> y / s"
  proof -
    have "1 / 8 = (1 / 2) / (4::real)" by simp
    also have "\<dots> \<le> (1 / 2) / s" using s spos by (intro divide_left_mono) simp_all
    also have "\<dots> \<le> y / s" by (intro divide_right_mono) (use y spos in simp_all)
    finally show ?thesis .
  qed
  ultimately obtain c where c: "rnd64 (y / s) = Fin c" "1 / 8 \<le> c" "c \<le> 1 / 2"
    using rnd64_range by blast
  have m: "dmul (dmul (Fin (- 0.5)) (Fin (1 / 2))) (Fin (1 / 2)) = Fin (- (1 / 8))"
    by (simp add: rnd64_neg_quarter rnd64_neg_eighth)
  have "norm_pdf_double (Fin (1 / 2)) = Inr (Fin c)"
    unfolding norm_pdf_double_def m using y s c spos by (simp add: bind_exn_def)
  with c show ?thesis by blast
qed

lemma norm_cdf_double_returns: "\<exists>v. norm_cdf_double (Fin a) = Inr v"
proof -
  obtain c where "dmath_sqrt (Fin 2) = Inr (Fin c)" "c \<noteq> 0"
    using sqrt_2_double by blast
  then show ?thesis by (simp add: norm_cdf_double_def bind_exn_def)
qed

lemma dmul_min_subnormal:
  assumes "1 / 8 \<le> c" "c \<le> 1 / 2"
  shows "dmul (Fin (2 powr (- 1074))) (Fin c) = Fin 0"
proof -
  have "2 powr (- 1074) * c \<le> 2 powr (- 1074) * (1 / 2)"
    using assms by (intro mult_left_mono) simp_all
  also have "\<dots> = (2::real) powr (- 1074 - 1)"
    by (simp only: powr_diff powr_one)
  finally have "2 powr (- 1074) * c \<le> 2 powr (- 1075)" by simp
  moreover have "0 < 2 powr (- 1074) * c" using assms by simp
  ultimately have "rnd64 (2 powr (- 1074) * c) = Fin 0" by (rule rnd64_tiny[rotated])
  then show ?thesis by (simp only: dmul.simps)
qed

lemma zero_vega_at_min_subnormal:
  "map_sum id dvega
     (black76_price_double (Fin 1) (Fin 1) (Fin 1) (Fin (2 powr (- 1074))) (Fin 1) (AsEnum CALL))
     = Inr (Fin 0)
   \<and> \<not> dlt (Fin 0) (Fin 0)"
proof -
  define D where "D = Fin (2 powr (- 1074))"
  obtain c where c: "norm_pdf_double (Fin (1 / 2)) = Inr (Fin c)" "1 / 8 \<le> c" "c \<le> 1 / 2"
    using norm_pdf_double_half by blast
  obtain v1 where v1: "norm_cdf_double (Fin (1 / 2)) = Inr v1"
    using norm_cdf_double_returns by blast
  obtain v2 where v2: "norm_cdf_double (Fin (- (1 / 2))) = Inr v2"
    using norm_cdf_double_returns by blast
  have z: "dmul D (Fin c) = Fin 0"
    unfolding D_def by (rule dmul_min_subnormal[OF c(2,3)])
  have o: "dmul D (Fin 1) = D"
    unfolding D_def using rnd64_min_subnormal by simp
  have d1: "ddiv (dadd (Fin 0) (dmul (Fin (1 / 2)) (Fin 1))) (dmul (Fin 1) (Fin 1))
              = Inr (Fin (1 / 2))"
    by (simp add: rnd64_1 rnd64_half)
  have d2: "dsub (Fin (1 / 2)) (Fin 1) = Fin (- (1 / 2))"
    by (simp add: dsub_def rnd64_neg_half)
  have "black76_price_double (Fin 1) (Fin 1) (Fin 1) D (Fin 1) (AsEnum CALL)
          = Inr \<lparr>dprice = dmul D (dsub (dmul (Fin 1) v1) (dmul (Fin 1) v2)),
                 ddelta = dmul D v1, dgamma = Fin 0, dvega = Fin 0\<rparr>"
    unfolding black76_price_double_def
    by (simp add: bind_exn_def OptionType_of_def lower_call rnd64_0 rnd64_1 rnd64_half
          d1 d2 c(1) v1 v2 z o)
  then show ?thesis
    unfolding D_def by (simp add: dlt_def)
qed

lemma nan_prices_at_infinite_dcf:
  "black76_price_double (Fin 1) (Fin 1) PInf (Fin 1) (Fin 1) (AsEnum CALL)
     = Inr \<lparr>dprice = NaN, ddelta = NaN, dgamma = NaN, dvega = NaN\<rparr>
   \<and> black76_price_double (Fin 1) (Fin 1) PInf (Fin 1) (Fin 2) (AsEnum CALL)
     = Inr \<lparr>dprice = NaN, ddelta = NaN, dgamma = NaN, dvega = NaN\<rparr>
   \<and> black76_price_double (Fin 2) (Fin 1) PInf (Fin 1) (Fin 1) (AsEnum CALL)
     = Inr \<lparr>dprice = NaN, ddelta = NaN, dgamma = NaN, dvega = NaN\<rparr>
   \<and> dlt (Fin 1) (Fin 2) \<and> \<not> dlt NaN NaN \<and> \<not> dlt (Fin 0) NaN"
  by (simp add: black76_price_double_def bind_exn_def OptionType_of_def lower_call
        rnd64_0 rnd64_1 rnd64_2 rnd64_4 rnd64_half dsub_def dlt_def dadd_rnd64_PInf
        norm_cdf_double_NaN norm_pdf_double_NaN)

lemma underflow_to_domain_error:
  "black76_price_double (Fin (2 powr (- 1000))) (Fin (2 powr 1000)) (Fin 1) (Fin 1) (Fin 1)
     (AsEnum CALL)
     = Inl (ValueError [Txt ''math domain error''])"
proof -
  define f :: real where "f = 2 powr (- 1000)"
  define k :: real where "k = 2 powr 1000"
  have fpos: "0 < f" and kpos: "0 < k" by (simp_all add: f_def k_def)
  have "f / k = 2 powr (- 1000 - 1000)" unfolding f_def k_def by (simp only: powr_diff)
  also have "\<dots> \<le> 2 powr (- 1075)" by (rule powr_mono) simp_all
  finally have "f / k \<le> 2 powr (- 1075)" .
  moreover have "0 < f / k" using fpos kpos by simp
  ultimately have r: "rnd64 (f / k) = Fin 0" by (rule rnd64_tiny[rotated])
  have g: "\<not> f \<le> 0" "\<not> k \<le> 0" "k \<noteq> 0" using fpos kpos by simp_all
  have "black76_price_double (Fin f) (Fin k) (Fin 1) (Fin 1) (Fin 1) (AsEnum CALL)
     = Inl (ValueError [Txt ''math domain error''])"
    unfolding black76_price_double_def using g r
    by (simp add: bind_exn_def OptionType_of_def lower_call rnd64_1)
  then show ?thesis unfolding f_def k_def .
qed

lemma underflow_to_zero_division:
  "black76_price_double (Fin 1) (Fin 1) (Fin (2 powr (- 1000))) (Fin 1) (Fin (2 powr (- 600)))
     (AsEnum CALL)
     = Inl (ZeroDivisionError [Txt ''float division by zero''])"
proof -
  define t :: real where "t = 2 powr (- 1000)"
  define v :: real where "v = 2 powr (- 600)"
  define h :: real where "h = 2 powr (- 500)"
  have tpos: "0 < t" and vpos: "0 < v" and hpos: "0 < h" by (simp_all add: t_def v_def h_def)
  have "t = 2 powr (- 500 + - 500)" by (simp add: t_def)
  also have "\<dots> = h * h" unfolding h_def by (simp only: powr_add)
  finally have "sqrt t = h" using hpos by simp
  moreover have "rnd64 h = Fin h"
    unfolding h_def using rnd64_pow2[of "- 500"] by simp
  ultimately have s: "rnd64 (sqrt t) = Fin h" by simp
  have "v * v = 2 powr (- 600 + - 600)" unfolding v_def by (simp only: powr_add)
  also have "\<dots> \<le> 2 powr (- 1075)" by (rule powr_mono) simp_all
  finally have "v * v \<le> 2 powr (- 1075)" .
  moreover have "0 < v * v" using vpos by simp
  ultimately have p: "rnd64 (v * v) = Fin 0" by (rule rnd64_tiny[rotated])
  have "v * h = 2 powr (- 600 + - 500)" unfolding v_def h_def by (simp only: powr_add)
  also have "\<dots> \<le> 2 powr (- 1075)" by (rule powr_mono) simp_all
  finally have "v * h \<le> 2 powr (- 1075)" .
  moreover have "0 < v * h" using vpos hpos by simp
  ultimately have m: "rnd64 (v * h) = Fin 0" by (rule rnd64_tiny[rotated])
  have g: "\<not> t \<le> 0" "\<not> v \<le> 0" "\<not> t < 0" using tpos vpos by simp_all
  have "black76_price_double (Fin 1) (Fin 1) (Fin t) (Fin 1) (Fin v) (AsEnum CALL)
     = Inl (ZeroDivisionError [Txt ''float division by zero''])"
    unfolding black76_price_double_def using g s p m
    by (simp add: bind_exn_def OptionType_of_def lower_call rnd64_0 rnd64_1)
  then show ?thesis unfolding t_def v_def .
qed

lemma overflow_of_square:
  "black76_price_double (Fin 1) (Fin 1) (Fin 1) (Fin 1) (Fin (2 ^ 700)) (AsEnum CALL)
     = Inl (OtherException ''OverflowError'' [Txt ''(34, 'Numerical result out of range')''])"
proof -
  have g: "\<not> dle (Fin (2 ^ 700)) (Fin 0)" by simp
  show ?thesis
    unfolding black76_price_double_def
    using g dpow2_overflow
    by (simp add: bind_exn_def OptionType_of_def lower_call rnd64_0 rnd64_1)
qed

section \<open>The claims\<close>

text \<open>
  C1, as stated, fails in double precision: on valid inputs the engine can raise instead of
  returning a result. With forward price, strike, day-count fraction and discount factor 1
  and volatility \<open>2\<^sup>7\<^sup>0\<^sup>0\<close> the square of the volatility overflows
  (\<^verbatim>\<open>OverflowError\<close>); with forward price \<open>2\<^sup>-\<^sup>1\<^sup>0\<^sup>0\<^sup>0\<close> and strike \<open>2\<^sup>1\<^sup>0\<^sup>0\<^sup>0\<close> their
  quotient underflows to zero and the logarithm fails (\<^verbatim>\<open>ValueError\<close>, math domain
  error); with day-count fraction \<open>2\<^sup>-\<^sup>1\<^sup>0\<^sup>0\<^sup>0\<close> and volatility \<open>2\<^sup>-\<^sup>6\<^sup>0\<^sup>0\<close> the product of
  the volatility and the root of the day-count fraction underflows to zero and the division
  by it fails (\<^verbatim>\<open>ZeroDivisionError\<close>).
\<close>

theorem black76_price_double_overflows:
  "black76_price_double (Fin 1) (Fin 1) (Fin 1) (Fin 1) (Fin (2 ^ 700)) (AsEnum CALL)
     = Inl (OtherException ''OverflowError'' [Txt ''(34, 'Numerical result out of range')''])
   \<and> black76_price_double (Fin (2 powr (- 1000))) (Fin (2 powr 1000)) (Fin 1) (Fin 1) (Fin 1)
       (AsEnum CALL)
     = Inl (ValueError [Txt ''math domain error''])
   \<and> black76_price_double (Fin 1) (Fin 1) (Fin (2 powr (- 1000))) (Fin 1)
       (Fin (2 powr (- 600))) (AsEnum CALL)
     = Inl (ZeroDivisionError [Txt ''float division by zero''])"
  using overflow_of_square underflow_to_domain_error underflow_to_zero_division
  by (simp only: simp_thms)

text \<open>
  C1, amended. Over exact real arithmetic, for every valid input (forward price, strike,
  day-count fraction and volatility positive, any discount factor, an option type that
  resolves to CALL or PUT) \<open>black76_price\<close> returns a result, and the result is the closed
  form of the specification: with \<open>d1 = (ln (F/K) + (\<sigma>\<^sup>2/2) T) / (\<sigma> \<surd>T)\<close> and
  \<open>d2 = d1 - \<sigma> \<surd>T\<close>, the price is \<open>D (F \<Phi>(d1) - K \<Phi>(d2))\<close> and the delta
  \<open>D \<Phi>(d1)\<close> for a call, the price is \<open>D (K \<Phi>(-d2) - F \<Phi>(-d1))\<close> and the delta
  \<open>- D \<Phi>(-d1)\<close> for a put, the gamma is \<open>D \<phi>(d1) / (F \<sigma> \<surd>T)\<close> and the vega
  \<open>D F \<phi>(d1) \<surd>T / 100\<close> for both.
\<close>

theorem black76_price_closed_form:
  assumes "0 < F" "0 < K" "0 < T" "0 < \<sigma>"
    and "OptionType_of (lower (str_value a)) = Inr ot"
  shows "black76_price F K T D \<sigma> a = Inr (black76_closed_form ot F K T D \<sigma>)"
  unfolding closed_form_eq by (rule black76_price_valid[OF assms])

theorem black76_price_closed_form_witness:
  "(0::real) < 5500 \<and> (0::real) < 5000 \<and> (0::real) < 1 / 4 \<and> (0::real) < 3 / 20
   \<and> OptionType_of (lower (str_value (AsStr ''CALL''))) = Inr CALL
   \<and> black76_price 5500 5000 (1 / 4) (49 / 50) (3 / 20) (AsStr ''CALL'')
       = Inr (black76_closed_form CALL 5500 5000 (1 / 4) (49 / 50) (3 / 20))
   \<and> OptionType_of (lower (str_value (AsEnum PUT))) = Inr PUT
   \<and> black76_price 5500 5000 (1 / 4) (49 / 50) (3 / 20) (AsEnum PUT)
       = Inr (black76_closed_form PUT 5500 5000 (1 / 4) (49 / 50) (3 / 20))"
proof -
  have c: "OptionType_of (lower (str_value (AsStr ''CALL''))) = Inr CALL"
    by (simp add: lower_CALL OptionType_of_def)
  have p: "OptionType_of (lower (str_value (AsEnum PUT))) = Inr PUT"
    by (simp add: lower_put OptionType_of_def)
  show ?thesis
    using c p
      black76_price_closed_form[of 5500 5000 "1 / 4" "3 / 20" "AsStr ''CALL''" CALL "49 / 50"]
      black76_price_closed_form[of 5500 5000 "1 / 4" "3 / 20" "AsEnum PUT" PUT "49 / 50"]
    by simp
qed

text \<open>
  C2. For every input with a forward price, strike, day-count fraction or volatility that
  is not positive, or with an option-type string whose lower-casing is neither call nor put,
  \<open>black76_price\<close> fails with one \<open>ValueError\<close>; its message names a parameter that is
  violated and carries that parameter's value. It is never a division by zero or a domain
  error of the logarithm or the square root, and never a result.
\<close>

theorem black76_price_rejects_invalid:
  assumes "F \<le> 0 \<or> K \<le> 0 \<or> T \<le> 0 \<or> \<sigma> \<le> 0
           \<or> (lower (str_value a) \<noteq> ''call'' \<and> lower (str_value a) \<noteq> ''put'')"
  shows "(F \<le> 0 \<and> black76_price F K T D \<sigma> a
            = Inl (ValueError [Txt ''Forward must be positive, got '', Flt F]))
       \<or> (K \<le> 0 \<and> black76_price F K T D \<sigma> a
            = Inl (ValueError [Txt ''Strike must be positive, got '', Flt K]))
       \<or> (T \<le> 0 \<and> black76_price F K T D \<sigma> a
            = Inl (ValueError [Txt ''DCF must be positive, got '', Flt T]))
       \<or> (\<sigma> \<le> 0 \<and> black76_price F K T D \<sigma> a
            = Inl (ValueError [Txt ''Volatility must be positive, got '', Flt \<sigma>]))
       \<or> (lower (str_value a) \<noteq> ''call'' \<and> lower (str_value a) \<noteq> ''put''
            \<and> black76_price F K T D \<sigma> a
            = Inl (ValueError [Repr (lower (str_value a)), Txt '' is not a valid OptionType'']))"
proof (cases "0 < F \<and> 0 < K \<and> 0 < T \<and> 0 < \<sigma>")
  case True
  with assms have "lower (str_value a) \<noteq> ''call''" "lower (str_value a) \<noteq> ''put''"
    by auto
  with True show ?thesis
    by (simp add: black76_price_invalid_type)
next
  case False
  then show ?thesis
    by (auto simp: black76_price_def not_less)
qed

theorem black76_price_rejects_invalid_witness:
  "black76_price 0 5000 (1 / 4) 1 (3 / 20) (AsStr ''call'')
     = Inl (ValueError [Txt ''Forward must be positive, got '', Flt 0])
   \<and> black76_price 5500 (- 5) (1 / 4) 1 (3 / 20) (AsStr ''call'')
     = Inl (ValueError [Txt ''Strike must be positive, got '', Flt (- 5)])
   \<and> black76_price 5500 5000 0 1 (3 / 20) (AsStr ''call'')
     = Inl (ValueError [Txt ''DCF must be positive, got '', Flt 0])
   \<and> black76_price 5500 5000 (1 / 4) 1 (- 1 / 10) (AsStr ''call'')
     = Inl (ValueError [Txt ''Volatility must be positive, got '', Flt (- 1 / 10)])
   \<and> black76_price 5500 5000 (1 / 4) 1 (3 / 20) (AsStr ''straddle'')
     = Inl (ValueError [Repr ''straddle'', Txt '' is not a valid OptionType''])"
  using black76_price_rejects_invalid[of 0 5000 "1 / 4" "3 / 20" "AsStr ''call''" 1]
    black76_price_rejects_invalid[of 5500 "- 5" "1 / 4" "3 / 20" "AsStr ''call''" 1]
    black76_price_rejects_invalid[of 5500 5000 0 "3 / 20" "AsStr ''call''" 1]
    black76_price_rejects_invalid[of 5500 5000 "1 / 4" "- 1 / 10" "AsStr ''call''" 1]
    black76_price_rejects_invalid[of 5500 5000 "1 / 4" "3 / 20" "AsStr ''straddle''" 1]
  by (simp add: lower_call lower_straddle)

text \<open>
  C3, as stated, fails: with a discount factor of zero and the other parameters valid the
  engine returns a result.
\<close>

theorem black76_price_df_zero_returns:
  "black76_price 1 1 1 0 1 (AsEnum CALL) = Inr \<lparr>price = 0, delta = 0, gamma = 0, vega = 0\<rparr>"
  using black76_price_call[of 1 1 1 1 0] by simp

text \<open>
  C3, amended. The engine does not validate the discount factor: for a forward price,
  strike, day-count fraction and volatility that are positive and a recognised option type
  it returns the closed-form result also when the discount factor is zero or negative. Such
  a discount factor violates only the constraint declared on the tool's parameter.
\<close>

theorem black76_price_ignores_df:
  assumes "0 < F" "0 < K" "0 < T" "0 < \<sigma>"
    and "OptionType_of (lower (str_value a)) = Inr ot"
    and "D \<le> 0"
  shows "black76_price F K T D \<sigma> a = Inr (black76_closed_form ot F K T D \<sigma>)
         \<and> \<not> field_constraints F K T D \<sigma> s"
  using assms(6) black76_price_valid[OF assms(1-5), of D]
  by (simp add: closed_form_eq field_constraints_def)

theorem black76_price_ignores_df_witness:
  "(0::real) < 1 \<and> OptionType_of (lower (str_value (AsEnum PUT))) = Inr PUT \<and> (- 1::real) \<le> 0
   \<and> black76_price 1 1 1 (- 1) 1 (AsEnum PUT) = Inr (black76_closed_form PUT 1 1 1 (- 1) 1)
   \<and> \<not> field_constraints 1 1 1 (- 1) 1 ''put''"
  using black76_price_ignores_df[of 1 1 1 1 "AsEnum PUT" PUT "- 1" "''put''"]
  by (simp add: lower_put OptionType_of_def)



text \<open>
  C5, as stated, fails in double precision: at the valid input forward price 1, strike 1,
  day-count fraction \<open>+\<infinity>\<close>, discount factor 1 and volatility 1 the engine returns the
  record whose four fields are NaN, and NaN is not at least 0, not at most the discount
  factor and not equal to itself.
\<close>

theorem black76_price_double_nan_result:
  "black76_price_double (Fin 1) (Fin 1) PInf (Fin 1) (Fin 1) (AsEnum CALL)
     = Inr \<lparr>dprice = NaN, ddelta = NaN, dgamma = NaN, dvega = NaN\<rparr>
   \<and> \<not> dle (Fin 0) NaN \<and> \<not> dle NaN (Fin 1) \<and> \<not> deq NaN NaN"
  by (simp add: black76_price_double_def bind_exn_def OptionType_of_def lower_call
        rnd64_0 rnd64_1 rnd64_half dsub_def norm_cdf_double_NaN norm_pdf_double_NaN)

text \<open>
  C5, amended. Over exact real arithmetic, for valid inputs with a positive discount factor
  the call and the put are both priced, both prices and both gammas are non-negative, the
  call delta lies in \<open>[0, D]\<close>, the put delta lies in \<open>[-D, 0]\<close>, and the call and the put
  have the same gamma and the same vega.
\<close>

theorem result_invariants:
  assumes "0 < F" "0 < K" "0 < T" "0 < \<sigma>" "0 < D"
  shows "\<exists>c p. black76_price F K T D \<sigma> (AsEnum CALL) = Inr c
             \<and> black76_price F K T D \<sigma> (AsEnum PUT) = Inr p
             \<and> 0 \<le> price c \<and> 0 \<le> price p
             \<and> 0 \<le> gamma c \<and> 0 \<le> gamma p
             \<and> 0 \<le> delta c \<and> delta c \<le> D
             \<and> - D \<le> delta p \<and> delta p \<le> 0
             \<and> gamma c = gamma p \<and> vega c = vega p"
proof -
  have pc: "0 \<le> D * call_value F K T \<sigma>"
    using assms(5) call_value_pos[OF assms(1-4)] by simp
  have pp: "0 \<le> D * put_value F K T \<sigma>"
    using assms(5) put_value_pos[OF assms(1-4)] by simp
  have g: "0 \<le> D * norm_pdf (d_1 F K T \<sigma>) / (F * \<sigma> * sqrt T)"
    by (rule less_imp_le[OF gamma_pos[OF assms(1,3,4,5)]])
  have dc0: "0 \<le> D * norm_cdf (d_1 F K T \<sigma>)"
    using assms(5) norm_cdf_pos[of "d_1 F K T \<sigma>"] by simp
  have "D * norm_cdf (d_1 F K T \<sigma>) \<le> D * 1"
    by (rule mult_left_mono) (use assms(5) norm_cdf_less_1[of "d_1 F K T \<sigma>"] in simp_all)
  then have dc1: "D * norm_cdf (d_1 F K T \<sigma>) \<le> D" by simp
  have dp0: "- D * norm_cdf (- d_1 F K T \<sigma>) \<le> 0"
    using assms(5) norm_cdf_pos[of "- d_1 F K T \<sigma>"] by simp
  have "D * norm_cdf (- d_1 F K T \<sigma>) \<le> D * 1"
    by (rule mult_left_mono) (use assms(5) norm_cdf_less_1[of "- d_1 F K T \<sigma>"] in simp_all)
  then have dp1: "- D \<le> - D * norm_cdf (- d_1 F K T \<sigma>)" by simp
  show ?thesis
    unfolding black76_price_call[OF assms(1-4)] black76_price_put[OF assms(1-4)]
    using pc pp g dc0 dc1 dp0 dp1 by simp
qed

theorem result_invariants_witness:
  "(0::real) < 5500 \<and> (0::real) < 5000 \<and> (0::real) < 1 / 4 \<and> (0::real) < 3 / 20
   \<and> (0::real) < 49 / 50
   \<and> (\<exists>c p. black76_price 5500 5000 (1 / 4) (49 / 50) (3 / 20) (AsEnum CALL) = Inr c
             \<and> black76_price 5500 5000 (1 / 4) (49 / 50) (3 / 20) (AsEnum PUT) = Inr p
             \<and> 0 \<le> price c \<and> 0 \<le> price p
             \<and> 0 \<le> gamma c \<and> 0 \<le> gamma p
             \<and> 0 \<le> delta c \<and> delta c \<le> 49 / 50
             \<and> - (49 / 50) \<le> delta p \<and> delta p \<le> 0
             \<and> gamma c = gamma p \<and> vega c = vega p)"
  using result_invariants[of 5500 5000 "1 / 4" "3 / 20" "49 / 50"] by simp

text \<open>
  C6, as stated, fails in double precision. At the valid finite input forward price 1,
  strike 1, day-count fraction 1, volatility 1 and discount factor \<open>2\<^sup>-\<^sup>1\<^sup>0\<^sup>7\<^sup>4\<close> (the least
  positive float) the product of the discount factor and the density underflows and the vega
  is exactly 0, not positive. With strike 1, discount factor 1 and the valid day-count
  fraction \<open>+\<infinity>\<close> the call price is NaN at volatility 1 and at volatility 2, at forward
  price 1 and at forward price 2, so it does not increase.
\<close>

theorem black76_price_double_not_monotone:
  "map_sum id dvega
     (black76_price_double (Fin 1) (Fin 1) (Fin 1) (Fin (2 powr (- 1074))) (Fin 1) (AsEnum CALL))
     = Inr (Fin 0)
   \<and> \<not> dlt (Fin 0) (Fin 0)
   \<and> black76_price_double (Fin 1) (Fin 1) PInf (Fin 1) (Fin 1) (AsEnum CALL)
     = Inr \<lparr>dprice = NaN, ddelta = NaN, dgamma = NaN, dvega = NaN\<rparr>
   \<and> black76_price_double (Fin 1) (Fin 1) PInf (Fin 1) (Fin 2) (AsEnum CALL)
     = Inr \<lparr>dprice = NaN, ddelta = NaN, dgamma = NaN, dvega = NaN\<rparr>
   \<and> black76_price_double (Fin 2) (Fin 1) PInf (Fin 1) (Fin 1) (AsEnum CALL)
     = Inr \<lparr>dprice = NaN, ddelta = NaN, dgamma = NaN, dvega = NaN\<rparr>
   \<and> dlt (Fin 1) (Fin 2) \<and> \<not> dlt NaN NaN \<and> \<not> dlt (Fin 0) NaN"
  using zero_vega_at_min_subnormal nan_prices_at_infinite_dcf by (simp only: simp_thms)

text \<open>
  C6, amended. Over exact real arithmetic, for valid inputs with a positive discount factor
  the call price is strictly increasing in the volatility and in the forward price, and the
  vega and the call delta are positive.
\<close>

theorem call_price_monotone:
  assumes "0 < F" "0 < K" "0 < T" "0 < \<sigma>" "0 < D"
    and "F < F'" "\<sigma> < \<sigma>'"
  shows "\<exists>r rF rv. black76_price F K T D \<sigma> (AsEnum CALL) = Inr r
             \<and> black76_price F' K T D \<sigma> (AsEnum CALL) = Inr rF
             \<and> black76_price F K T D \<sigma>' (AsEnum CALL) = Inr rv
             \<and> price r < price rF \<and> price r < price rv
             \<and> 0 < vega r \<and> 0 < delta r"
proof -
  have F': "0 < F'" and v': "0 < \<sigma>'" using assms by simp_all
  have mF: "D * call_value F K T \<sigma> < D * call_value F' K T \<sigma>"
    by (rule mult_strict_left_mono[OF call_value_mono_F[OF assms(1,6,2,3,4)] assms(5)])
  have mv: "D * call_value F K T \<sigma> < D * call_value F K T \<sigma>'"
    by (rule mult_strict_left_mono[OF call_value_mono_v[OF assms(1,2,3,4,7)] assms(5)])
  have vg: "0 < D * F * norm_pdf (d_1 F K T \<sigma>) * sqrt T / 100"
    by (rule vega_pos[OF assms(1,3,5)])
  have dl: "0 < D * norm_cdf (d_1 F K T \<sigma>)"
    using assms(5) norm_cdf_pos[of "d_1 F K T \<sigma>"] by simp
  show ?thesis
    unfolding black76_price_call[OF assms(1-4)] black76_price_call[OF F' assms(2-4)]
      black76_price_call[OF assms(1-3) v']
    using mF mv vg dl by simp
qed

theorem call_price_monotone_witness:
  "(0::real) < 5500 \<and> (0::real) < 5000 \<and> (0::real) < 1 / 4 \<and> (0::real) < 3 / 20
   \<and> (0::real) < 49 / 50 \<and> (5500::real) < 5501 \<and> (3 / 20 ::real) < 4 / 20
   \<and> (\<exists>r rF rv. black76_price 5500 5000 (1 / 4) (49 / 50) (3 / 20) (AsEnum CALL) = Inr r
             \<and> black76_price 5501 5000 (1 / 4) (49 / 50) (3 / 20) (AsEnum CALL) = Inr rF
             \<and> black76_price 5500 5000 (1 / 4) (49 / 50) (4 / 20) (AsEnum CALL) = Inr rv
             \<and> price r < price rF \<and> price r < price rv
             \<and> 0 < vega r \<and> 0 < delta r)"
  using call_price_monotone[of 5500 5000 "1 / 4" "3 / 20" "49 / 50" 5501 "4 / 20"] by simp

text \<open>
  C7, as stated, fails for the tool: the upper-case string CALL, which the engine
  accepts, gets the error response from \<open>price_option_black76\<close>.
\<close>

theorem tool_rejects_upper_case:
  "price_option_black76 5500 5000 (1 / 4) (49 / 50) (3 / 20) ''CALL''
     = JObj [(''status'', JStr ''error''),
             (''message'', JText [Repr ''CALL'', Txt '' is not a valid OptionType''])]"
  by (simp add: price_option_black76_def bind_exn_def OptionType_of_def)

text \<open>
  C7, amended. In \<open>black76_price\<close> the parsing of the option type is case-insensitive
  and closed: with valid numbers, a string whose lower-casing is call or put is accepted and
  the corresponding side is priced, and every other string fails with a \<open>ValueError\<close>.
  The tool \<open>price_option_black76\<close> accepts exactly the lower-case strings call and put:
  its body hands the string to the enum without lower-casing it, so every other string,
  an upper-case spelling included, gives the error response, and the pattern declared on the
  parameter excludes it as well.
\<close>

theorem option_type_parsing:
  assumes "0 < F" "0 < K" "0 < T" "0 < \<sigma>"
  shows "(lower s = ''call'' \<longrightarrow>
            black76_price F K T D \<sigma> (AsStr s) = Inr (black76_closed_form CALL F K T D \<sigma>))
       \<and> (lower s = ''put'' \<longrightarrow>
            black76_price F K T D \<sigma> (AsStr s) = Inr (black76_closed_form PUT F K T D \<sigma>))
       \<and> (lower s \<noteq> ''call'' \<and> lower s \<noteq> ''put'' \<longrightarrow>
            black76_price F K T D \<sigma> (AsStr s)
              = Inl (ValueError [Repr (lower s), Txt '' is not a valid OptionType'']))
       \<and> (s = ''call'' \<longrightarrow>
            price_option_black76 F K T D \<sigma> s
              = success_response F K s (black76_closed_form CALL F K T D \<sigma>))
       \<and> (s = ''put'' \<longrightarrow>
            price_option_black76 F K T D \<sigma> s
              = success_response F K s (black76_closed_form PUT F K T D \<sigma>))
       \<and> (s \<noteq> ''call'' \<and> s \<noteq> ''put'' \<longrightarrow>
            price_option_black76 F K T D \<sigma> s
              = JObj [(''status'', JStr ''error''),
                      (''message'', JText [Repr s, Txt '' is not a valid OptionType''])]
            \<and> \<not> field_constraints F K T D \<sigma> s)"
proof (intro conjI impI)
  assume "lower s = ''call''"
  then have "OptionType_of (lower (str_value (AsStr s))) = Inr CALL"
    by (simp add: OptionType_of_def)
  from black76_price_valid[OF assms this]
  show "black76_price F K T D \<sigma> (AsStr s) = Inr (black76_closed_form CALL F K T D \<sigma>)"
    by (simp only: closed_form_eq)
next
  assume "lower s = ''put''"
  then have "OptionType_of (lower (str_value (AsStr s))) = Inr PUT"
    by (simp add: OptionType_of_def)
  from black76_price_valid[OF assms this]
  show "black76_price F K T D \<sigma> (AsStr s) = Inr (black76_closed_form PUT F K T D \<sigma>)"
    by (simp only: closed_form_eq)
next
  assume "lower s \<noteq> ''call'' \<and> lower s \<noteq> ''put''"
  then show "black76_price F K T D \<sigma> (AsStr s)
              = Inl (ValueError [Repr (lower s), Txt '' is not a valid OptionType''])"
    using black76_price_invalid_type[OF assms, of "AsStr s" D] by simp
next
  assume s: "s = ''call''"
  have o: "OptionType_of s = Inr CALL" by (simp add: s OptionType_of_def)
  have "black76_price F K T D \<sigma> (AsEnum CALL) = Inr (black76_closed_form CALL F K T D \<sigma>)"
    using black76_price_valid[OF assms OptionType_of_enum[of CALL], of D]
    by (simp only: closed_form_eq)
  from tool_success[OF o this]
  show "price_option_black76 F K T D \<sigma> s
          = success_response F K s (black76_closed_form CALL F K T D \<sigma>)" .
next
  assume s: "s = ''put''"
  have o: "OptionType_of s = Inr PUT" by (simp add: s OptionType_of_def)
  have "black76_price F K T D \<sigma> (AsEnum PUT) = Inr (black76_closed_form PUT F K T D \<sigma>)"
    using black76_price_valid[OF assms OptionType_of_enum[of PUT], of D]
    by (simp only: closed_form_eq)
  from tool_success[OF o this]
  show "price_option_black76 F K T D \<sigma> s
          = success_response F K s (black76_closed_form PUT F K T D \<sigma>)" .
next
  assume s: "s \<noteq> ''call'' \<and> s \<noteq> ''put''"
  then have "OptionType_of s = Inl (ValueError [Repr s, Txt '' is not a valid OptionType''])"
    by (simp add: OptionType_of_def)
  from tool_error_parse[OF this]
  show "price_option_black76 F K T D \<sigma> s
          = JObj [(''status'', JStr ''error''),
                  (''message'', JText [Repr s, Txt '' is not a valid OptionType''])]"
    by simp
  from s show "\<not> field_constraints F K T D \<sigma> s"
    by (simp add: field_constraints_def)
qed

theorem option_type_parsing_witness:
  "(0::real) < 5500 \<and> (0::real) < 5000 \<and> (0::real) < 1 / 4 \<and> (0::real) < 3 / 20
   \<and> lower ''CALL'' = ''call''
   \<and> black76_price 5500 5000 (1 / 4) (49 / 50) (3 / 20) (AsStr ''CALL'')
        = Inr (black76_closed_form CALL 5500 5000 (1 / 4) (49 / 50) (3 / 20))
   \<and> lower ''Put'' = ''put''
   \<and> black76_price 5500 5000 (1 / 4) (49 / 50) (3 / 20) (AsStr ''Put'')
        = Inr (black76_closed_form PUT 5500 5000 (1 / 4) (49 / 50) (3 / 20))
   \<and> black76_price 5500 5000 (1 / 4) (49 / 50) (3 / 20) (AsStr ''straddle'')
        = Inl (ValueError [Repr ''straddle'', Txt '' is not a valid OptionType''])
   \<and> price_option_black76 5500 5000 (1 / 4) (49 / 50) (3 / 20) ''call''
        = success_response 5500 5000 ''call''
            (black76_closed_form CALL 5500 5000 (1 / 4) (49 / 50) (3 / 20))
   \<and> price_option_black76 5500 5000 (1 / 4) (49 / 50) (3 / 20) ''put''
        = success_response 5500 5000 ''put''
            (black76_closed_form PUT 5500 5000 (1 / 4) (49 / 50) (3 / 20))
   \<and> price_option_black76 5500 5000 (1 / 4) (49 / 50) (3 / 20) ''Put''
        = JObj [(''status'', JStr ''error''),
                (''message'', JText [Repr ''Put'', Txt '' is not a valid OptionType''])]
   \<and> \<not> field_constraints 5500 5000 (1 / 4) (49 / 50) (3 / 20) ''Put''"
  using option_type_parsing[of 5500 5000 "1 / 4" "3 / 20" "''CALL''" "49 / 50"]
    option_type_parsing[of 5500 5000 "1 / 4" "3 / 20" "''Put''" "49 / 50"]
    option_type_parsing[of 5500 5000 "1 / 4" "3 / 20" "''straddle''" "49 / 50"]
    option_type_parsing[of 5500 5000 "1 / 4" "3 / 20" "''call''" "49 / 50"]
    option_type_parsing[of 5500 5000 "1 / 4" "3 / 20" "''put''" "49 / 50"]
  by (simp add: lower_CALL lower_Put lower_straddle lower_call lower_put)

text \<open>
  C8. Rounding contract: the engine's result is the unrounded closed form; \<open>to_dict\<close> with
  its default argument rounds price, delta and vega to 4 decimal places, gamma to 6 and the
  dollar price (price times 100) to 2; the successful response of the tool rounds the premium
  to 2 decimal places, delta to 4, gamma to 6 and vega times 100 to 2, each taken from the
  unrounded fields of the result. Rounded to \<open>n\<close> places means a whole number of units
  \<open>10\<^sup>-\<^sup>n\<close> at most half a unit away.
\<close>

theorem rounding_contract:
  assumes "0 < F" "0 < K" "0 < T" "0 < \<sigma>" and "OptionType_of s = Inr ot"
  shows "\<exists>r. black76_price F K T D \<sigma> (AsEnum ot) = Inr r
           \<and> r = black76_closed_form ot F K T D \<sigma>
           \<and> to_dict_default r =
               [(''price'', py_round (price r) 4),
                (''dollar_price'', py_round (price r * 100) 2),
                (''delta'', py_round (delta r) 4),
                (''gamma'', py_round (gamma r) 6),
                (''vega'', py_round (vega r) 4)]
           \<and> price_option_black76 F K T D \<sigma> s = success_response F K s r
           \<and> json_get ''pricing'' (price_option_black76 F K T D \<sigma> s)
               = Some (JObj [(''premium'', JNum (py_round (price r) 2))])
           \<and> json_get ''greeks'' (price_option_black76 F K T D \<sigma> s)
               = Some (JObj [(''delta'', JNum (py_round (delta r) 4)),
                             (''gamma'', JNum (py_round (gamma r) 6)),
                             (''vega_per_1pct_usd'', JNum (py_round (vega r * 100) 2))])
           \<and> rounded_to 4 (price r) (py_round (price r) 4)
           \<and> rounded_to 2 (price r * 100) (py_round (price r * 100) 2)
           \<and> rounded_to 4 (delta r) (py_round (delta r) 4)
           \<and> rounded_to 6 (gamma r) (py_round (gamma r) 6)
           \<and> rounded_to 4 (vega r) (py_round (vega r) 4)
           \<and> rounded_to 2 (price r) (py_round (price r) 2)
           \<and> rounded_to 2 (vega r * 100) (py_round (vega r * 100) 2)"
proof -
  define r where "r = black76_closed_form ot F K T D \<sigma>"
  have e: "black76_price F K T D \<sigma> (AsEnum ot) = Inr r"
    unfolding r_def using black76_price_valid[OF assms(1-4) OptionType_of_enum[of ot], of D]
    by (simp only: closed_form_eq)
  have t: "price_option_black76 F K T D \<sigma> s = success_response F K s r"
    by (rule tool_success[OF assms(5) e])
  have d: "to_dict_default r =
               [(''price'', py_round (price r) 4),
                (''dollar_price'', py_round (price r * 100) 2),
                (''delta'', py_round (delta r) 4),
                (''gamma'', py_round (gamma r) 6),
                (''vega'', py_round (vega r) 4)]"
    by (simp add: to_dict_default_def to_dict_def dollar_price_def)
  have j1: "json_get ''pricing'' (price_option_black76 F K T D \<sigma> s)
               = Some (JObj [(''premium'', JNum (py_round (price r) 2))])"
    unfolding t by (simp add: success_response_def)
  have j2: "json_get ''greeks'' (price_option_black76 F K T D \<sigma> s)
               = Some (JObj [(''delta'', JNum (py_round (delta r) 4)),
                             (''gamma'', JNum (py_round (gamma r) 6)),
                             (''vega_per_1pct_usd'', JNum (py_round (vega r * 100) 2))])"
    unfolding t by (simp add: success_response_def)
  have r4: "rounded_to 4 x (py_round x 4)" for x
    using py_round_rounded_to[of 4 x] by simp
  have r2: "rounded_to 2 x (py_round x 2)" for x
    using py_round_rounded_to[of 2 x] by simp
  have r6: "rounded_to 6 x (py_round x 6)" for x
    using py_round_rounded_to[of 6 x] by simp
  show ?thesis
    using e d t j1 j2 r2 r4 r6 r_def by blast
qed

theorem rounding_contract_witness:
  "(0::real) < 5500 \<and> (0::real) < 5000 \<and> (0::real) < 1 / 4 \<and> (0::real) < 3 / 20
   \<and> OptionType_of ''call'' = Inr CALL
   \<and> (\<exists>r. black76_price 5500 5000 (1 / 4) (49 / 50) (3 / 20) (AsEnum CALL) = Inr r
           \<and> r = black76_closed_form CALL 5500 5000 (1 / 4) (49 / 50) (3 / 20)
           \<and> price_option_black76 5500 5000 (1 / 4) (49 / 50) (3 / 20) ''call''
               = success_response 5500 5000 ''call'' r
           \<and> json_get ''pricing''
                (price_option_black76 5500 5000 (1 / 4) (49 / 50) (3 / 20) ''call'')
               = Some (JObj [(''premium'', JNum (py_round (price r) 2))])
           \<and> rounded_to 2 (price r) (py_round (price r) 2)
           \<and> rounded_to 6 (gamma r) (py_round (gamma r) 6))"
proof -
  have o: "OptionType_of ''call'' = Inr CALL" by (simp add: OptionType_of_def)
  show ?thesis
    using o rounding_contract[of 5500 5000 "1 / 4" "3 / 20" "''call''" CALL "49 / 50"]
    by auto
qed

text \<open>
  C9. The tool never lets an exception escape: both handlers turn every exception into the
  record with status error and the exception's message, and for every input the tool returns
  either the success record (status success, the forward price and the strike echoed, the
  pricing and the greeks) or that error record for the exception raised in the try block.
\<close>

theorem tool_never_raises:
  "(\<forall>e. except_clauses e
          = JObj [(''status'', JStr ''error''), (''message'', JText (str_exn e))])
   \<and> ((\<exists>r. bind_exn (OptionType_of s) (\<lambda>ot. black76_price F K T D \<sigma> (AsEnum ot)) = Inr r
           \<and> price_option_black76 F K T D \<sigma> s = success_response F K s r
           \<and> json_get ''status'' (price_option_black76 F K T D \<sigma> s) = Some (JStr ''success'')
           \<and> json_get ''inputs'' (price_option_black76 F K T D \<sigma> s)
               = Some (JObj [(''forward'', JNum F), (''strike'', JNum K)])
           \<and> json_get ''pricing'' (price_option_black76 F K T D \<sigma> s)
               = Some (JObj [(''premium'', JNum (py_round (price r) 2))])
           \<and> json_get ''greeks'' (price_option_black76 F K T D \<sigma> s)
               = Some (JObj [(''delta'', JNum (py_round (delta r) 4)),
                             (''gamma'', JNum (py_round (gamma r) 6)),
                             (''vega_per_1pct_usd'', JNum (py_round (vega r * 100) 2))]))
      \<or> (\<exists>e. bind_exn (OptionType_of s) (\<lambda>ot. black76_price F K T D \<sigma> (AsEnum ot)) = Inl e
           \<and> price_option_black76 F K T D \<sigma> s
               = JObj [(''status'', JStr ''error''), (''message'', JText (str_exn e))]))"
proof (intro conjI allI)
  fix e show "except_clauses e
          = JObj [(''status'', JStr ''error''), (''message'', JText (str_exn e))]"
    by (rule except_clauses_eq)
next
  show "(\<exists>r. bind_exn (OptionType_of s) (\<lambda>ot. black76_price F K T D \<sigma> (AsEnum ot)) = Inr r
           \<and> price_option_black76 F K T D \<sigma> s = success_response F K s r
           \<and> json_get ''status'' (price_option_black76 F K T D \<sigma> s) = Some (JStr ''success'')
           \<and> json_get ''inputs'' (price_option_black76 F K T D \<sigma> s)
               = Some (JObj [(''forward'', JNum F), (''strike'', JNum K)])
           \<and> json_get ''pricing'' (price_option_black76 F K T D \<sigma> s)
               = Some (JObj [(''premium'', JNum (py_round (price r) 2))])
           \<and> json_get ''greeks'' (price_option_black76 F K T D \<sigma> s)
               = Some (JObj [(''delta'', JNum (py_round (delta r) 4)),
                             (''gamma'', JNum (py_round (gamma r) 6)),
                             (''vega_per_1pct_usd'', JNum (py_round (vega r * 100) 2))]))
      \<or> (\<exists>e. bind_exn (OptionType_of s) (\<lambda>ot. black76_price F K T D \<sigma> (AsEnum ot)) = Inl e
           \<and> price_option_black76 F K T D \<sigma> s
               = JObj [(''status'', JStr ''error''), (''message'', JText (str_exn e))])"
  proof (cases "bind_exn (OptionType_of s) (\<lambda>ot. black76_price F K T D \<sigma> (AsEnum ot))")
    case (Inl e)
    then show ?thesis
      by (simp add: price_option_black76_def except_clauses_eq)
  next
    case (Inr r)
    then show ?thesis
      by (simp add: price_option_black76_def success_response_def)
  qed
qed

theorem tool_never_raises_witness:
  "price_option_black76 5500 5000 0 (49 / 50) (3 / 20) ''call''
     = JObj [(''status'', JStr ''error''),
             (''message'', JText [Txt ''DCF must be positive, got '', Flt 0])]
   \<and> json_get ''status'' (price_option_black76 5500 5000 (1 / 4) (49 / 50) (3 / 20) ''call'')
       = Some (JStr ''success'')"
proof -
  have a: "bind_exn (OptionType_of ''call'')
             (\<lambda>ot. black76_price 5500 5000 0 (49 / 50) (3 / 20) (AsEnum ot))
           = Inl (ValueError [Txt ''DCF must be positive, got '', Flt 0])"
    by (simp add: bind_exn_def OptionType_of_def black76_price_def)
  have b: "bind_exn (OptionType_of ''call'')
             (\<lambda>ot. black76_price 5500 5000 (1 / 4) (49 / 50) (3 / 20) (AsEnum ot))
           = Inr (black76_closed_form CALL 5500 5000 (1 / 4) (49 / 50) (3 / 20))"
    using black76_price_valid[OF _ _ _ _ OptionType_of_enum[of CALL],
        of 5500 5000 "1 / 4" "3 / 20" "49 / 50"]
    by (simp add: bind_exn_def OptionType_of_def closed_form_eq)
  show ?thesis
    using a b tool_never_raises[of "''call''" 5500 5000 0 "49 / 50" "3 / 20"]
      tool_never_raises[of "''call''" 5500 5000 "1 / 4" "49 / 50" "3 / 20"]
    by auto
qed

text \<open>
  C10. The validation order is forward price, strike, day-count fraction, volatility, and
  then the option type: the error raised names the first violated parameter in that order,
  and an unrecognised option type is not reported while a number is invalid.
\<close>

theorem validation_order:
  "(F \<le> 0 \<longrightarrow> black76_price F K T D \<sigma> a
        = Inl (ValueError [Txt ''Forward must be positive, got '', Flt F]))
   \<and> (0 < F \<and> K \<le> 0 \<longrightarrow> black76_price F K T D \<sigma> a
        = Inl (ValueError [Txt ''Strike must be positive, got '', Flt K]))
   \<and> (0 < F \<and> 0 < K \<and> T \<le> 0 \<longrightarrow> black76_price F K T D \<sigma> a
        = Inl (ValueError [Txt ''DCF must be positive, got '', Flt T]))
   \<and> (0 < F \<and> 0 < K \<and> 0 < T \<and> \<sigma> \<le> 0 \<longrightarrow> black76_price F K T D \<sigma> a
        = Inl (ValueError [Txt ''Volatility must be positive, got '', Flt \<sigma>]))
   \<and> (0 < F \<and> 0 < K \<and> 0 < T \<and> 0 < \<sigma>
        \<and> lower (str_value a) \<noteq> ''call'' \<and> lower (str_value a) \<noteq> ''put''
        \<longrightarrow> black76_price F K T D \<sigma> a
        = Inl (ValueError [Repr (lower (str_value a)), Txt '' is not a valid OptionType'']))
   \<and> (F \<le> 0 \<or> K \<le> 0 \<or> T \<le> 0 \<or> \<sigma> \<le> 0 \<longrightarrow> black76_price F K T D \<sigma> a
        \<noteq> Inl (ValueError [Repr (lower (str_value a)), Txt '' is not a valid OptionType'']))"
  by (auto simp: black76_price_def bind_exn_def OptionType_of_def)

theorem validation_order_witness:
  "black76_price 0 (- 5) 0 1 (- 1 / 10) (AsStr ''straddle'')
     = Inl (ValueError [Txt ''Forward must be positive, got '', Flt 0])
   \<and> black76_price 5500 (- 5) 0 1 (- 1 / 10) (AsStr ''straddle'')
     = Inl (ValueError [Txt ''Strike must be positive, got '', Flt (- 5)])
   \<and> black76_price 5500 5000 0 1 (- 1 / 10) (AsStr ''straddle'')
     = Inl (ValueError [Txt ''DCF must be positive, got '', Flt 0])
   \<and> black76_price 5500 5000 (1 / 4) 1 (- 1 / 10) (AsStr ''straddle'')
     = Inl (ValueError [Txt ''Volatility must be positive, got '', Flt (- 1 / 10)])
   \<and> black76_price 5500 5000 (1 / 4) 1 (3 / 20) (AsStr ''straddle'')
     = Inl (ValueError [Repr ''straddle'', Txt '' is not a valid OptionType''])
   \<and> black76_price 5500 5000 (1 / 4) 1 (- 1 / 10) (AsStr ''straddle'')
     \<noteq> Inl (ValueError [Repr ''straddle'', Txt '' is not a valid OptionType''])"
  using validation_order[of 0 "- 5" 0 1 "- 1 / 10" "AsStr ''straddle''"]
    validation_order[of 5500 "- 5" 0 1 "- 1 / 10" "AsStr ''straddle''"]
    validation_order[of 5500 5000 0 1 "- 1 / 10" "AsStr ''straddle''"]
    validation_order[of 5500 5000 "1 / 4" 1 "- 1 / 10" "AsStr ''straddle''"]
    validation_order[of 5500 5000 "1 / 4" 1 "3 / 20" "AsStr ''straddle''"]
  by (simp add: lower_straddle)

end
